theory Spec2Isabelle
  imports Main "HOL-Library.Sublist"
begin

section \<open>Python string primitives\<close>

text \<open>
  Report text, diffs and paths are Python \<open>str\<close> values. They are modelled as
  \<^typ>\<open>string\<close>, one \<^typ>\<open>char\<close> per code point, which covers the ASCII and
  Latin-1 text the scripts are fed; the whitespace class below is the ASCII part of
  \<open>str.isspace\<close> (tab, line feed, vertical tab, form feed, carriage return, the four
  separators 0x1C..0x1F and the blank).
\<close>

definition py_isspace :: "char \<Rightarrow> bool" where
  "py_isspace c =
     (c \<in> set [CHR 0x09, CHR 0x0A, CHR 0x0B, CHR 0x0C, CHR 0x0D,
                CHR 0x1C, CHR 0x1D, CHR 0x1E, CHR 0x1F, CHR 0x20])"

text \<open>\<open>s.lstrip()\<close>, \<open>s.rstrip()\<close> and \<open>s.strip()\<close> without argument.\<close>

definition py_lstrip :: "string \<Rightarrow> string" where
  "py_lstrip s = dropWhile py_isspace s"

definition py_rstrip :: "string \<Rightarrow> string" where
  "py_rstrip s = rev (dropWhile py_isspace (rev s))"

definition py_strip :: "string \<Rightarrow> string" where
  "py_strip s = py_rstrip (py_lstrip s)"

text \<open>\<open>s.lstrip(cs)\<close>, \<open>s.rstrip(cs)\<close> and \<open>s.strip(cs)\<close> with a set of characters.\<close>

definition lstrip_chars :: "string \<Rightarrow> string \<Rightarrow> string" where
  "lstrip_chars cs s = dropWhile (\<lambda>c. c \<in> set cs) s"

definition rstrip_chars :: "string \<Rightarrow> string \<Rightarrow> string" where
  "rstrip_chars cs s = rev (dropWhile (\<lambda>c. c \<in> set cs) (rev s))"

definition strip_chars :: "string \<Rightarrow> string \<Rightarrow> string" where
  "strip_chars cs s = rstrip_chars cs (lstrip_chars cs s)"

text \<open>
  \<open>s.replace(old, new)\<close>: the occurrences of \<open>old\<close> are replaced from left to right,
  without overlap. Every call in the scripts passes a non-empty literal for \<open>old\<close>.
\<close>

fun py_replace :: "string \<Rightarrow> string \<Rightarrow> string \<Rightarrow> string" where
  "py_replace old new [] = []"
| "py_replace old new (c # cs) =
     (if old \<noteq> [] \<and> prefix old (c # cs)
      then new @ py_replace old new (drop (length old) (c # cs))
      else c # py_replace old new cs)"

text \<open>\<open>s.split(c)\<close> for a one-character separator, and \<open>sep.join(parts)\<close>.\<close>

fun split_on :: "char \<Rightarrow> string \<Rightarrow> string list" where
  "split_on c [] = [[]]"
| "split_on c (x # xs) =
     (if x = c then [] # split_on c xs
      else (case split_on c xs of
              l # ls \<Rightarrow> (x # l) # ls
            | [] \<Rightarrow> [[x]]))"

fun join_with :: "string \<Rightarrow> string list \<Rightarrow> string" where
  "join_with sep [] = []"
| "join_with sep [x] = x"
| "join_with sep (x # y # ys) = x @ sep @ join_with sep (y # ys)"

text \<open>\<open>sub in s\<close>: the substring test.\<close>

fun py_in :: "string \<Rightarrow> string \<Rightarrow> bool" where
  "py_in sub [] = (sub = [])"
| "py_in sub (c # cs) = (prefix sub (c # cs) \<or> py_in sub cs)"

text \<open>The index of the first element satisfying a test (\<open>next(idx for ...)\<close>).\<close>

fun first_index :: "('a \<Rightarrow> bool) \<Rightarrow> 'a list \<Rightarrow> nat option" where
  "first_index P [] = None"
| "first_index P (x # xs) =
     (if P x then Some 0
      else (case first_index P xs of None \<Rightarrow> None | Some i \<Rightarrow> Some (Suc i)))"


section \<open>The diff normaliser of \<open>postprocess_review.py\<close>\<close>

text \<open>\<open>sanitize_path\<close>: trim, turn backslashes into slashes, drop leading \<open>./\<close>.\<close>

fun strip_dot_slash :: "string \<Rightarrow> string" where
  "strip_dot_slash (a # b # s) =
     (if a = CHR ''.'' \<and> b = CHR ''/'' then strip_dot_slash s else a # b # s)"
| "strip_dot_slash s = s"

definition sanitize_path :: "string \<Rightarrow> string" where
  "sanitize_path path = strip_dot_slash (py_replace [CHR 0x5C] ''/'' (py_strip path))"

text \<open>
  The first loop of \<open>prepare_patch_for_application\<close>: the first line that starts with
  \<open>diff --git\<close> is rewritten when a path hint is known; the flag tells whether such a
  line was met.
\<close>

fun rewrite_first_diff :: "string \<Rightarrow> string \<Rightarrow> string list \<Rightarrow> bool \<times> string list" where
  "rewrite_first_diff path_hint diff_line [] = (False, [])"
| "rewrite_first_diff path_hint diff_line (l # ls) =
     (if prefix ''diff --git '' l
      then (True, (if path_hint \<noteq> [] then diff_line else l) # ls)
      else (case rewrite_first_diff path_hint diff_line ls of
              (present, ls') \<Rightarrow> (present, l # ls')))"

text \<open>
  The second loop: every \<open>--- \<close> and \<open>+++ \<close> line is noted, and rewritten to the path
  hint unless it mentions \<open>/dev/null\<close>. The result is \<open>(has_old, has_new, prepared)\<close>.
\<close>

fun rewrite_headers :: "string \<Rightarrow> string list \<Rightarrow> bool \<times> bool \<times> string list" where
  "rewrite_headers path_hint [] = (False, False, [])"
| "rewrite_headers path_hint (l # ls) =
     (case rewrite_headers path_hint ls of
        (has_old, has_new, ls') \<Rightarrow>
          if prefix ''--- '' l
          then (True, has_new,
                (if path_hint \<noteq> [] \<and> \<not> py_in ''/dev/null'' l
                 then ''--- a/'' @ path_hint else l) # ls')
          else if prefix ''+++ '' l
          then (has_old, True,
                (if path_hint \<noteq> [] \<and> \<not> py_in ''/dev/null'' l
                 then ''+++ b/'' @ path_hint else l) # ls')
          else (has_old, has_new, l # ls'))"

text \<open>The lines the normaliser works on: line ends unified, outer newlines stripped.\<close>

definition normalized_text :: "string \<Rightarrow> string" where
  "normalized_text patch =
     strip_chars ''\<newline>''
       (py_replace [CHR 0x0D] ''\<newline>'' (py_replace [CHR 0x0D, CHR 0x0A] ''\<newline>'' patch))"

definition path_hint_of :: "string option \<Rightarrow> string" where
  "path_hint_of file_path =
     (case file_path of
        None \<Rightarrow> []
      | Some p \<Rightarrow> if p \<noteq> [] then sanitize_path p else [])"

definition diff_line_of :: "string \<Rightarrow> string" where
  "diff_line_of path_hint =
     (if path_hint \<noteq> [] then ''diff --git a/'' @ path_hint @ '' b/'' @ path_hint else [])"

text \<open>
  The synthesis step (taken when neither header is present): no path hint, or no hunk
  line, gives \<open>None\<close>; otherwise the two headers go in before the first hunk line.
\<close>

definition synthesize_headers :: "string \<Rightarrow> string list \<Rightarrow> string list option" where
  "synthesize_headers path_hint prepared =
     (if path_hint = [] then None
      else (case first_index (prefix ''@@'') prepared of
              None \<Rightarrow> None
            | Some first_hunk \<Rightarrow>
                Some (take first_hunk prepared
                      @ [''--- a/'' @ path_hint, ''+++ b/'' @ path_hint]
                      @ drop first_hunk prepared)))"

text \<open>\<open>postprocess_review.prepare_patch_for_application(patch, file_path)\<close>.\<close>

definition postprocess_prepare_patch_for_application ::
    "string \<Rightarrow> string option \<Rightarrow> string option" where
  "postprocess_prepare_patch_for_application patch file_path =
     (let normalized = normalized_text patch in
      if normalized = [] then None
      else
        let lines = split_on CHR ''\<newline>'' normalized in
        if \<not> list_ex (prefix ''@@'') lines then None
        else
          let path_hint = path_hint_of file_path;
              diff_line = diff_line_of path_hint;
              (diff_present, prepared1) = rewrite_first_diff path_hint diff_line lines;
              prepared2 = (if \<not> diff_present \<and> path_hint \<noteq> []
                           then diff_line # prepared1 else prepared1);
              (has_old, has_new, prepared3) = rewrite_headers path_hint prepared2
          in
            if (has_old \<and> \<not> has_new) \<or> (has_new \<and> \<not> has_old) then None
            else
              (case (if \<not> has_old \<and> \<not> has_new
                     then synthesize_headers path_hint prepared3
                     else Some prepared3) of
                 None \<Rightarrow> None
               | Some prepared4 \<Rightarrow>
                   let prepared5 =
                         (if path_hint \<noteq> [] \<and> \<not> list_ex (prefix ''diff --git '') prepared4
                          then diff_line # prepared4 else prepared4)
                   in Some (rstrip_chars ''\<newline>'' (join_with ''\<newline>'' prepared5)
                            @ ''\<newline>'')))"


section \<open>The report parser of \<open>interactive_review.py\<close>\<close>

record finding =
  "identifier" :: string
  title :: string
  "file" :: string
  lines :: string
  suggestion :: string
  raw_block :: string
  details :: string
  reasoning :: string
  func :: string

text \<open>
  \<open>func\<close> is the source's field \<open>function\<close>. Case conversion is modelled on the
  ASCII letters.
\<close>

definition is_upper_az :: "char \<Rightarrow> bool" where
  "is_upper_az c = (c \<in> set ''ABCDEFGHIJKLMNOPQRSTUVWXYZ'')"

definition py_lower :: "string \<Rightarrow> string" where
  "py_lower s =
     map (\<lambda>c. case map_of (zip ''ABCDEFGHIJKLMNOPQRSTUVWXYZ'' ''abcdefghijklmnopqrstuvwxyz'') c of
                 Some d \<Rightarrow> d | None \<Rightarrow> c) s"

definition py_upper :: "string \<Rightarrow> string" where
  "py_upper s =
     map (\<lambda>c. case map_of (zip ''abcdefghijklmnopqrstuvwxyz'' ''ABCDEFGHIJKLMNOPQRSTUVWXYZ'') c of
                 Some d \<Rightarrow> d | None \<Rightarrow> c) s"

text \<open>
  \<open>split_first pat s\<close> cuts \<open>s\<close> at the leftmost occurrence of \<open>pat\<close>, giving the text
  before it and the text after it: what a lazy \<open>.*?\<close> followed by a literal matches.
  \<open>find_sub\<close> is \<open>str.find\<close>.
\<close>

fun split_first :: "string \<Rightarrow> string \<Rightarrow> (string \<times> string) option" where
  "split_first pat [] = (if pat = [] then Some ([], []) else None)"
| "split_first pat (c # cs) =
     (if prefix pat (c # cs) then Some ([], drop (length pat) (c # cs))
      else (case split_first pat cs of
              None \<Rightarrow> None
            | Some (before, after) \<Rightarrow> Some (c # before, after)))"

fun find_sub :: "string \<Rightarrow> string \<Rightarrow> nat option" where
  "find_sub sub [] = (if sub = [] then Some 0 else None)"
| "find_sub sub (c # cs) =
     (if prefix sub (c # cs) then Some 0
      else (case find_sub sub cs of None \<Rightarrow> None | Some i \<Rightarrow> Some (Suc i)))"

definition py_find :: "string \<Rightarrow> string \<Rightarrow> nat \<Rightarrow> nat option" where
  "py_find s sub start =
     (case find_sub sub (drop start s) of None \<Rightarrow> None | Some i \<Rightarrow> Some (start + i))"

text \<open>
  \<open>str.splitlines()\<close>: a line ends at a line feed, a carriage return (with a following
  line feed), a vertical tab, a form feed or one of the separators 0x1C..0x1E; there is
  no empty last line.
\<close>

definition is_linebreak :: "char \<Rightarrow> bool" where
  "is_linebreak c =
     (c \<in> set [CHR 0x0A, CHR 0x0B, CHR 0x0C, CHR 0x0D, CHR 0x1C, CHR 0x1D, CHR 0x1E])"

fun splitlines_acc :: "string \<Rightarrow> string \<Rightarrow> string list" where
  "splitlines_acc cur [] = (if cur = [] then [] else [rev cur])"
| "splitlines_acc cur [c] =
     (if is_linebreak c then [rev cur] else [rev (c # cur)])"
| "splitlines_acc cur (c # d # cs) =
     (if c = CHR 0x0D \<and> d = CHR 0x0A then rev cur # splitlines_acc [] cs
      else if is_linebreak c then rev cur # splitlines_acc [] (d # cs)
      else splitlines_acc (c # cur) (d # cs))"

definition py_splitlines :: "string \<Rightarrow> string list" where
  "py_splitlines s = splitlines_acc [] s"

text \<open>\<open>canonicalize_label\<close> and \<open>clean_value\<close>.\<close>

definition canonicalize_label :: "string \<Rightarrow> string option" where
  "canonicalize_label label =
     (let normalized = py_strip (py_lower label);
          normalized = py_replace ''(if 'bad')'' [] normalized;
          normalized = py_replace (''(if '' @ [CHR 0x22] @ ''bad'' @ [CHR 0x22] @ '')'') [] normalized;
          normalized = py_replace ''(if bad)'' [] normalized;
          normalized = py_strip (rstrip_chars '':'' normalized)
      in map_of [(''title'', ''title''), (''file'', ''file''), (''function'', ''function''),
                 (''lines'', ''lines''), (''line'', ''lines''), (''details'', ''details''),
                 (''suggestion'', ''suggestion''), (''reasoning'', ''reasoning'')] normalized)"

definition clean_value :: "string \<Rightarrow> string" where
  "clean_value text =
     (let cleaned = py_rstrip text
      in if suffix [CHR 0x5C] cleaned then py_rstrip (butlast cleaned) else cleaned)"

text \<open>
  \<open>parse_fields\<close>: the dictionary of line lists is a map; \<open>append_field\<close> is
  \<open>fields.setdefault(name, []).append(v)\<close>. One step of the loop handles one line and
  carries \<open>(fields, current_field)\<close>; the dictionary is written \<open>fmap\<close>.
\<close>

type_synonym field_lists = "string \<rightharpoonup> string list"

definition setdefault_field :: "field_lists \<Rightarrow> string \<Rightarrow> field_lists" where
  "setdefault_field fmap name =
     (case fmap name of None \<Rightarrow> fmap(name \<mapsto> []) | Some vs \<Rightarrow> fmap)"

definition append_field :: "field_lists \<Rightarrow> string \<Rightarrow> string \<Rightarrow> field_lists" where
  "append_field fmap name v =
     fmap(name \<mapsto> (case fmap name of None \<Rightarrow> [] | Some vs \<Rightarrow> vs) @ [v])"

definition field_header :: "string \<Rightarrow> (string \<times> string) option" where
  "field_header stripped =
     (if prefix ''**'' stripped
      then (case py_find stripped ''**'' 2 of
              None \<Rightarrow> None
            | Some closing \<Rightarrow>
                (let label = py_strip (take (closing - 2) (drop 2 stripped));
                     remainder = lstrip_chars '': '' (drop (closing + 2) stripped)
                 in (case canonicalize_label label of
                       None \<Rightarrow> None
                     | Some field_name \<Rightarrow> Some (field_name, remainder))))
      else None)"

definition parse_fields_step ::
    "field_lists \<times> string option \<Rightarrow> string \<Rightarrow> field_lists \<times> string option" where
  "parse_fields_step acc raw_line =
     (case acc of (fmap, current_field) \<Rightarrow>
        let stripped = py_strip raw_line in
        if stripped = []
        then (case current_field of
                Some cf \<Rightarrow> (append_field fmap cf [], current_field)
              | None \<Rightarrow> (fmap, current_field))
        else if prefix ''---'' stripped \<or> prefix ''### '' stripped
        then (fmap, None)
        else (case field_header stripped of
                Some (field_name, remainder) \<Rightarrow>
                  (let fmap' = setdefault_field fmap field_name
                   in (if remainder \<noteq> []
                       then append_field fmap' field_name (clean_value remainder)
                       else fmap',
                       Some field_name))
              | None \<Rightarrow>
                  (case current_field of
                     Some cf \<Rightarrow> (append_field fmap cf (clean_value raw_line), current_field)
                   | None \<Rightarrow> (fmap, current_field))))"

definition parse_fields :: "string \<Rightarrow> (string \<rightharpoonup> string)" where
  "parse_fields block_body =
     (let fmap = fst (foldl parse_fields_step (Map.empty, None) (py_splitlines block_body))
      in (\<lambda>name. case fmap name of
                    None \<Rightarrow> None
                  | Some v \<Rightarrow> Some (strip_chars ''\<newline>'' (join_with ''\<newline>'' v))))"

definition fields_get :: "(string \<rightharpoonup> string) \<Rightarrow> string \<Rightarrow> string" where
  "fields_get fmap name = (case fmap name of None \<Rightarrow> [] | Some v \<Rightarrow> v)"

text \<open>
  The section regex \<open>## Change-by-Change Review(.*?)(?:\n## |\Z)\<close>: the section is
  the text after the first marker, up to the first \<open>\n## \<close> or the end.
\<close>

definition find_section :: "string \<Rightarrow> string option" where
  "find_section normalized =
     (case split_first ''## Change-by-Change Review'' normalized of
        None \<Rightarrow> None
      | Some (before, rest) \<Rightarrow>
          (case split_first ''\<newline>## '' rest of
             None \<Rightarrow> Some rest
           | Some (section, after) \<Rightarrow> Some section))"

text \<open>
  The block regex
  \<open>### Assessment of the change:\s*([A-Z]+).*?\n(.*?)(?=\n### Assessment|\n## |\Z)\<close>
  tried at the head of \<open>s\<close>. After the literal, \<open>\s*\<close> takes all the whitespace and
  \<open>[A-Z]+\<close> the whole run of capitals (giving either of them less cannot make the rest
  match); the lazy \<open>.*?\n\<close> runs to the first line feed and the lazy body to the first
  place where the lookahead holds. The result is the grade, the body, the matched text
  and the text after the match.
\<close>

fun lazy_body :: "string \<Rightarrow> string \<times> string" where
  "lazy_body [] = ([], [])"
| "lazy_body (c # cs) =
     (if prefix ''\<newline>### Assessment'' (c # cs) \<or> prefix ''\<newline>## '' (c # cs)
      then ([], c # cs)
      else (case lazy_body cs of (body, rest) \<Rightarrow> (c # body, rest)))"

definition match_assessment :: "string \<Rightarrow> (string \<times> string \<times> string \<times> string) option" where
  "match_assessment s =
     (let literal = ''### Assessment of the change:'' in
      if \<not> prefix literal s then None
      else
        let after = drop (length literal) s;
            spaces = takeWhile py_isspace after;
            grade = takeWhile is_upper_az (dropWhile py_isspace after);
            after_grade = dropWhile is_upper_az (dropWhile py_isspace after)
        in if grade = [] then None
           else (case split_first ''\<newline>'' after_grade of
                   None \<Rightarrow> None
                 | Some (line_tail, after_line) \<Rightarrow>
                     (case lazy_body after_line of
                        (body, rest) \<Rightarrow>
                          Some (grade, body,
                                literal @ spaces @ grade @ line_tail @ ''\<newline>'' @ body,
                                rest))))"


text \<open>
  \<open>pattern.finditer(section)\<close>: the matches from left to right, without overlap; after
  a match the scan goes on at its end, and where the pattern fails one character on.
\<close>

function finditer_assessment :: "string \<Rightarrow> (string \<times> string \<times> string) list" where
  "finditer_assessment [] = []"
| "finditer_assessment (c # cs) =
     (case match_assessment (c # cs) of
        Some (grade, body, whole, rest) \<Rightarrow> (grade, body, whole) # finditer_assessment rest
      | None \<Rightarrow> finditer_assessment cs)"
  by pat_completeness auto
termination
proof (relation "measure length", goal_cases)
  case 1
  show ?case by simp
next
  case (2 c cs)
  show ?case by simp
next
  case (3 c cs m grade rest1 body rest2 whole rest)
  let ?s = "c # cs"
  let ?lit = "''### Assessment of the change:''"
  let ?ag = "dropWhile is_upper_az (dropWhile py_isspace (drop (length ?lit) ?s))"
  have cut: "length a \<le> length t" if "split_first pat t = Some (b, a)" for pat t b a
    using that by (induction t arbitrary: b) (auto split: if_splits option.splits)
  have lazy: "length r \<le> length t" if "lazy_body t = (b, r)" for t b r
    using that by (induction t arbitrary: b) (auto split: if_splits prod.splits)
  from 3 have m: "match_assessment ?s = Some (grade, body, whole, rest)" by simp
  then have pre: "prefix ?lit ?s"
    by (auto simp: match_assessment_def Let_def split: if_splits)
  from m obtain line_tail after_line where
      sp: "split_first ''\<newline>'' ?ag = Some (line_tail, after_line)"
      and lb: "lazy_body after_line = (body, rest)"
    by (auto simp: match_assessment_def Let_def split: if_splits option.splits prod.splits)
  have "length rest \<le> length after_line" using lb by (rule lazy)
  also have "\<dots> \<le> length ?ag" using sp by (rule cut)
  also have "\<dots> \<le> length (drop (length ?lit) ?s)"
    by (meson length_dropWhile_le order_trans)
  also have "\<dots> < length ?s"
    using pre by (auto simp: prefix_def)
  finally show ?case by simp
qed

text \<open>
  \<open>parse_bad_findings\<close>. The digest \<open>sha256(x.encode("utf-8")).hexdigest()\<close> comes
  from Python's library and is a parameter of the model.
\<close>

definition make_finding :: "(string \<Rightarrow> string) \<Rightarrow> string \<times> string \<times> string \<Rightarrow> finding" where
  "make_finding sha256_hex m =
     (case m of (grade, body, whole) \<Rightarrow>
        let fmap = parse_fields body;
            raw = py_strip whole
        in \<lparr> identifier = take 16 (sha256_hex raw),
             title = fields_get fmap ''title'',
             file = fields_get fmap ''file'',
             lines = fields_get fmap ''lines'',
             suggestion = fields_get fmap ''suggestion'',
             raw_block = raw,
             details = fields_get fmap ''details'',
             reasoning = fields_get fmap ''reasoning'',
             func = fields_get fmap ''function'' \<rparr>)"

definition parse_bad_findings :: "(string \<Rightarrow> string) \<Rightarrow> string \<Rightarrow> finding list" where
  "parse_bad_findings sha256_hex review_text =
     (let normalized = py_replace [CHR 0x0D, CHR 0x0A] ''\<newline>'' review_text
      in (case find_section normalized of
            None \<Rightarrow> []
          | Some section \<Rightarrow>
              map (make_finding sha256_hex)
                (filter (\<lambda>m. case m of (grade, body, whole) \<Rightarrow>
                                 py_upper (py_strip grade) = ''BAD'')
                   (finditer_assessment section))))"


section \<open>Diff extraction and the strict normaliser of \<open>interactive_review.py\<close>\<close>

text \<open>
  \<open>extract_patch\<close> searches \<open>```(?:diff|patch|suggestion)?\n(.*?)```\<close>.
  \<open>fence_open s\<close> holds when the opening fence, an optional tag and a line feed stand
  at the head of \<open>s\<close>, and gives the text after them; the group is then the text up to
  the next fence. \<open>search_fence\<close> gives the group of the leftmost match.
\<close>

definition fence_open :: "string \<Rightarrow> string option" where
  "fence_open s =
     (if \<not> prefix ''```'' s then None
      else
        let r = drop 3 s in
        if prefix ''diff\<newline>'' r then Some (drop 5 r)
        else if prefix ''patch\<newline>'' r then Some (drop 6 r)
        else if prefix ''suggestion\<newline>'' r then Some (drop 11 r)
        else if prefix ''\<newline>'' r then Some (drop 1 r)
        else None)"

definition fence_match :: "string \<Rightarrow> string option" where
  "fence_match s =
     (case fence_open s of
        None \<Rightarrow> None
      | Some r \<Rightarrow>
          (case split_first ''```'' r of
             None \<Rightarrow> None
           | Some (interior, after) \<Rightarrow> Some interior))"

fun search_fence :: "string \<Rightarrow> string option" where
  "search_fence [] = None"
| "search_fence (c # cs) =
     (case fence_match (c # cs) of
        Some interior \<Rightarrow> Some interior
      | None \<Rightarrow> search_fence cs)"

definition extract_patch :: "string \<Rightarrow> string option" where
  "extract_patch ai_output =
     (case search_fence ai_output of
        None \<Rightarrow> None
      | Some group1 \<Rightarrow>
          (let patch = py_strip group1
           in Some (if \<not> suffix ''\<newline>'' patch then patch @ ''\<newline>'' else patch)))"

text \<open>
  \<open>re.search(r"^pat", text, re.MULTILINE)\<close> for a literal \<open>pat\<close>: some line of the
  text, split at the line feeds, starts with \<open>pat\<close>.
\<close>

definition search_line_start :: "string \<Rightarrow> string \<Rightarrow> bool" where
  "search_line_start pat text = list_ex (prefix pat) (split_on CHR ''\<newline>'' text)"

text \<open>\<open>interactive_review.prepare_patch_for_application(patch)\<close>.\<close>

definition interactive_prepare_patch_for_application :: "string \<Rightarrow> string option" where
  "interactive_prepare_patch_for_application patch =
     (let normalized = py_replace [CHR 0x0D, CHR 0x0A] ''\<newline>'' patch;
          normalized = strip_chars ''\<newline>'' normalized
      in if py_strip normalized = [] then None
         else
           let normalized = (if \<not> suffix ''\<newline>'' normalized
                             then normalized @ ''\<newline>'' else normalized)
           in if \<not> search_line_start ''--- '' normalized then None
              else if \<not> search_line_start ''+++ '' normalized then None
              else if \<not> search_line_start ''@@ '' normalized then None
              else Some normalized)"


section \<open>The triage state\<close>

text \<open>
  The state file is a JSON object; an entry is a dictionary from keys to strings, the
  state a record of its three keys. A key that may be missing has an optional value; a
  missing \<open>findings\<close> key reads as the empty dictionary, as \<open>state.get("findings", {})\<close>
  does.
\<close>

type_synonym entry = "string \<rightharpoonup> string"

record review_state =
  review_hash :: "string option"
  findings :: "string \<rightharpoonup> entry"
  current_index :: "int option"

definition fresh_entry :: entry where
  "fresh_entry =
     [''status'' \<mapsto> ''pending'', ''last_ai_output'' \<mapsto> [], ''last_patch'' \<mapsto> [],
      ''last_patch_source'' \<mapsto> []]"

text \<open>\<open>ensure_state_for_findings\<close>.\<close>

fun setdefault_entries :: "finding list \<Rightarrow> (string \<rightharpoonup> entry) \<Rightarrow> (string \<rightharpoonup> entry)" where
  "setdefault_entries [] findings_state = findings_state"
| "setdefault_entries (f # fs) findings_state =
     setdefault_entries fs
       (case findings_state (identifier f) of
          None \<Rightarrow> findings_state(identifier f \<mapsto> fresh_entry)
        | Some e \<Rightarrow> findings_state)"

definition ensure_state_for_findings ::
    "review_state \<Rightarrow> string \<Rightarrow> finding list \<Rightarrow> review_state" where
  "ensure_state_for_findings state0 new_hash fs =
     (let finding_ids = map identifier fs;
          state1 = (if review_hash state0 \<noteq> Some new_hash
                    then \<lparr> review_hash = Some new_hash, findings = Map.empty,
                           current_index = Some 0 \<rparr>
                    else state0);
          findings_state = (\<lambda>key. if key \<in> set finding_ids then findings state1 key else None);
          findings_state = setdefault_entries fs findings_state
      in state1 \<lparr> findings := findings_state,
                  current_index := (case current_index state1 of
                                      None \<Rightarrow> Some 0 | Some i \<Rightarrow> Some i) \<rparr>)"

text \<open>\<open>find_first_pending_index\<close>, with the status lookups it makes.\<close>

definition entry_status :: "entry \<Rightarrow> string" where
  "entry_status e = (case e ''status'' of None \<Rightarrow> ''pending'' | Some v \<Rightarrow> v)"

definition status_of :: "(string \<rightharpoonup> entry) \<Rightarrow> string \<Rightarrow> string" where
  "status_of findings_state fid =
     (case findings_state fid of None \<Rightarrow> ''pending'' | Some e \<Rightarrow> entry_status e)"

definition is_resolved :: "string \<Rightarrow> bool" where
  "is_resolved status = (status \<in> {''acknowledged'', ''fixed''})"

definition find_first_pending_index :: "finding list \<Rightarrow> review_state \<Rightarrow> nat" where
  "find_first_pending_index fs st =
     (case first_index (\<lambda>f. \<not> is_resolved (status_of (findings st) (identifier f))) fs of
        Some i \<Rightarrow> i
      | None \<Rightarrow> length fs)"


section \<open>The interactive loop\<close>

text \<open>The index the loop starts at (the lines before \<open>while\<close>).\<close>

definition initial_index :: "finding list \<Rightarrow> review_state \<Rightarrow> int" where
  "initial_index fs st =
     (let idx = min (case current_index st of
                       Some i \<Rightarrow> i
                     | None \<Rightarrow> int (find_first_pending_index fs st))
                    (int (length fs))
      in if idx \<ge> int (length fs) then int (find_first_pending_index fs st) else idx)"

text \<open>
  What the outside world answers while one command runs: the text \<open>run_ai_fix\<close>
  returns (\<open>None\<close> when it fails), the answers typed at the two prompts, and whether
  \<open>git apply\<close> exits with status 0. What the loop prints is kept as a list of messages;
  the display of the finding and the editor are left out.
\<close>

record externals =
  ai_output :: "string option"
  generate_response :: string
  confirm_response :: string
  git_apply_ok :: bool

datatype message =
    Help
  | StoredDiffForLater
  | NoDiffInAiOutput
  | StoredPatchDiscarded
  | SuggestionIssue string
  | AskGenerate
  | NoPatchAvailable
  | AiFixFailed
  | AiNoDiffBlock
  | AiDiffNotPrepared
  | StoredAiDiff
  | PatchPreview string string
  | AskConfirm
  | ApplyCancelled
  | NotValidUnifiedDiff
  | GitApplyFailed
  | PatchApplied
  | Unrecognised string
  | AllProcessed

record apply_ctx =
  ctx_patch :: string
  ctx_source :: string
  ctx_entry :: entry
  ctx_stored :: bool
  ctx_issue :: string
  ctx_out :: "message list"

record loop_state =
  ls_index :: int
  ls_state :: review_state
  ls_stopped :: bool
  ls_output :: "message list"

text \<open>
  \<open>or_empty v\<close> is \<open>v or ""\<close>, \<open>get_or_empty e key\<close> is \<open>e.get(key) or ""\<close>, and
  \<open>truthy v\<close> is the test \<open>if v:\<close> on an optional string.
\<close>

definition or_empty :: "string option \<Rightarrow> string" where
  "or_empty v = (case v of None \<Rightarrow> [] | Some x \<Rightarrow> x)"

definition get_or_empty :: "entry \<Rightarrow> string \<Rightarrow> string" where
  "get_or_empty e key = or_empty (e key)"

definition truthy :: "string option \<Rightarrow> bool" where
  "truthy v = (case v of None \<Rightarrow> False | Some x \<Rightarrow> x \<noteq> [])"

definition clear_patch :: "entry \<Rightarrow> entry" where
  "clear_patch e = e(''last_patch'' \<mapsto> [], ''last_patch_source'' \<mapsto> [])"

definition store_patch :: "entry \<Rightarrow> string \<Rightarrow> string \<Rightarrow> entry" where
  "store_patch e p src = e(''last_patch'' \<mapsto> p, ''last_patch_source'' \<mapsto> src)"

text \<open>
  The \<open>apply\<close> command, in the order of the source. First the cached patch: it is kept
  when the normaliser accepts it, and discarded (with the entry stored) when not.
  \<open>ctx_stored\<close> records that \<open>findings_state[finding.identifier] = entry\<close> has run.
\<close>

definition apply_cached :: "entry \<Rightarrow> apply_ctx" where
  "apply_cached e =
     (let p = get_or_empty e ''last_patch'';
          src = get_or_empty e ''last_patch_source'';
          prepared_patch = (if p \<noteq> [] then interactive_prepare_patch_for_application p else None)
      in if truthy prepared_patch
         then \<lparr> ctx_patch = or_empty prepared_patch, ctx_source = src, ctx_entry = e,
                ctx_stored = False, ctx_issue = [], ctx_out = [] \<rparr>
         else if p \<noteq> []
         then \<lparr> ctx_patch = [], ctx_source = [], ctx_entry = clear_patch e,
                ctx_stored = True, ctx_issue = [], ctx_out = [StoredPatchDiscarded] \<rparr>
         else \<lparr> ctx_patch = p, ctx_source = src, ctx_entry = e,
                ctx_stored = False, ctx_issue = [], ctx_out = [] \<rparr>)"

text \<open>Then, with no patch yet, the diff embedded in the finding's suggestion.\<close>

definition apply_suggestion :: "finding \<Rightarrow> apply_ctx \<Rightarrow> apply_ctx" where
  "apply_suggestion f ctx =
     (if ctx_patch ctx \<noteq> [] then ctx
      else if suggestion f \<noteq> []
      then
        (let suggestion_patch = extract_patch (suggestion f)
         in if truthy suggestion_patch
            then
              (let prepared_suggestion =
                     interactive_prepare_patch_for_application (or_empty suggestion_patch)
               in if truthy prepared_suggestion
                  then ctx \<lparr> ctx_patch := or_empty prepared_suggestion,
                             ctx_source := ''suggestion'',
                             ctx_entry := store_patch (ctx_entry ctx)
                                            (or_empty prepared_suggestion) ''suggestion'',
                             ctx_stored := True \<rparr>
                  else ctx \<lparr> ctx_issue :=
                    ''The review suggestion includes a diff but it could not be prepared for application.'' \<rparr>)
            else ctx \<lparr> ctx_issue :=
                    ''The review suggestion did not include a diff to apply automatically.'' \<rparr>)
      else ctx \<lparr> ctx_issue := ''The review suggestion did not contain a diff.'' \<rparr>)"

text \<open>
  Then, still with no patch, the question whether to ask the assistant. \<open>Inl\<close> is a
  \<open>continue\<close>: the command ends here. \<open>Inr\<close> goes on to the preview.
\<close>

definition apply_ai :: "externals \<Rightarrow> apply_ctx \<Rightarrow> apply_ctx + apply_ctx" where
  "apply_ai ext ctx =
     (if ctx_patch ctx \<noteq> [] then Inr ctx
      else
        let out1 = ctx_out ctx
                   @ (if ctx_issue ctx \<noteq> [] then [SuggestionIssue (ctx_issue ctx)] else [])
                   @ [AskGenerate];
            response = py_lower (py_strip (generate_response ext))
        in if response \<notin> {''y'', ''yes''}
           then Inl (ctx \<lparr> ctx_out := out1 @ [NoPatchAvailable] \<rparr>)
           else if \<not> truthy (ai_output ext)
           then Inl (ctx \<lparr> ctx_out := out1 @ [AiFixFailed] \<rparr>)
           else
             let e1 = (ctx_entry ctx)(''last_ai_output'' \<mapsto> or_empty (ai_output ext));
                 ai_patch = extract_patch (or_empty (ai_output ext))
             in if \<not> truthy ai_patch
                then Inl (ctx \<lparr> ctx_entry := clear_patch e1, ctx_stored := True,
                                ctx_out := out1 @ [AiNoDiffBlock] \<rparr>)
                else
                  let prepared_ai_patch =
                        interactive_prepare_patch_for_application (or_empty ai_patch)
                  in if \<not> truthy prepared_ai_patch
                     then Inl (ctx \<lparr> ctx_entry := clear_patch e1, ctx_stored := True,
                                     ctx_out := out1 @ [AiDiffNotPrepared] \<rparr>)
                     else Inr (ctx \<lparr> ctx_patch := or_empty prepared_ai_patch,
                                     ctx_source := ''ai'',
                                     ctx_entry := store_patch e1 (or_empty prepared_ai_patch) ''ai'',
                                     ctx_stored := True,
                                     ctx_out := out1 @ [StoredAiDiff] \<rparr>))"

text \<open>
  \<open>apply_patch\<close>: the patch is normalised once more and piped to \<open>git apply\<close>, whose
  outcome is the external \<open>git_apply_ok\<close> (a failure to start git counts as a failure).
\<close>

definition apply_patch :: "externals \<Rightarrow> string \<Rightarrow> bool \<times> message list" where
  "apply_patch ext p =
     (if \<not> truthy (interactive_prepare_patch_for_application p) then (False, [NotValidUnifiedDiff])
      else if \<not> git_apply_ok ext then (False, [GitApplyFailed])
      else (True, [PatchApplied]))"

definition source_label :: "string \<Rightarrow> string" where
  "source_label src =
     (case map_of [(''suggestion'', ''review suggestion''), (''ai'', ''AI-generated diff'')] src of
        Some l \<Rightarrow> l | None \<Rightarrow> ''stored diff'')"

definition store_entry :: "review_state \<Rightarrow> string \<Rightarrow> apply_ctx \<Rightarrow> review_state" where
  "store_entry st fid ctx =
     (if ctx_stored ctx then st \<lparr> findings := (findings st)(fid \<mapsto> ctx_entry ctx) \<rparr> else st)"

definition apply_command :: "finding \<Rightarrow> entry \<Rightarrow> externals \<Rightarrow> loop_state \<Rightarrow> loop_state" where
  "apply_command f e ext ls =
     (let fid = identifier f; st = ls_state ls
      in (case apply_ai ext (apply_suggestion f (apply_cached e)) of
            Inl ctx \<Rightarrow>
              ls \<lparr> ls_state := store_entry st fid ctx, ls_output := ls_output ls @ ctx_out ctx \<rparr>
          | Inr ctx \<Rightarrow>
              if ctx_patch ctx = []
              then ls \<lparr> ls_state := store_entry st fid ctx,
                        ls_output := ls_output ls @ ctx_out ctx @ [NoPatchAvailable] \<rparr>
              else
                let out1 = ctx_out ctx
                           @ [PatchPreview (source_label (ctx_source ctx)) (ctx_patch ctx),
                              AskConfirm];
                    confirm = py_lower (py_strip (confirm_response ext))
                in if confirm \<noteq> ''y''
                   then ls \<lparr> ls_state := store_entry st fid ctx,
                             ls_output := ls_output ls @ out1 @ [ApplyCancelled] \<rparr>
                   else
                     (case apply_patch ext (ctx_patch ctx) of
                        (ok, msgs) \<Rightarrow>
                          if ok
                          then
                            let e' = (ctx_entry ctx)(''status'' \<mapsto> ''fixed'',
                                                     ''last_patch_source'' \<mapsto> ctx_source ctx);
                                idx = ls_index ls + 1
                            in ls \<lparr> ls_index := idx,
                                    ls_state := st \<lparr> findings := (findings st)(fid \<mapsto> e'),
                                                     current_index := Some idx \<rparr>,
                                    ls_output := ls_output ls @ out1 @ msgs \<rparr>
                          else ls \<lparr> ls_state := (store_entry st fid ctx)
                                                    \<lparr> current_index := Some (ls_index ls) \<rparr>,
                                    ls_output := ls_output ls @ out1 @ msgs \<rparr>)))"

text \<open>The \<open>fix\<close> command: the raw extracted diff is cached with provenance \<open>ai\<close>.\<close>

definition fix_command :: "finding \<Rightarrow> entry \<Rightarrow> externals \<Rightarrow> loop_state \<Rightarrow> loop_state" where
  "fix_command f e ext ls =
     (let st = ls_state ls;
          p = extract_patch (or_empty (ai_output ext));
          e1 = e(''last_ai_output'' \<mapsto> or_empty (ai_output ext));
          e' = (if truthy (ai_output ext)
                then (if truthy p then store_patch e1 (or_empty p) ''ai'' else clear_patch e1)
                else e);
          msgs = (if truthy (ai_output ext)
                  then (if truthy p then [StoredDiffForLater] else [NoDiffInAiOutput])
                  else [])
      in ls \<lparr> ls_state := st \<lparr> findings := (findings st)(identifier f \<mapsto> e') \<rparr>,
              ls_output := ls_output ls @ msgs \<rparr>)"

text \<open>
  One pass through the body of the \<open>while\<close> loop, for the typed line \<open>raw\<close>; the loop
  condition \<open>0 <= index < total\<close> holds when it runs.
\<close>

definition loop_step :: "finding list \<Rightarrow> string \<Rightarrow> externals \<Rightarrow> loop_state \<Rightarrow> loop_state" where
  "loop_step fs raw ext ls =
     (let idx = ls_index ls;
          st = ls_state ls;
          f = fs ! nat idx;
          e = (case findings st (identifier f) of None \<Rightarrow> Map.empty | Some e0 \<Rightarrow> e0);
          typed = py_lower (py_strip raw);
          command = (if typed = [] then ''n'' else typed)
      in if command \<in> {''?'', ''help''} then ls \<lparr> ls_output := ls_output ls @ [Help] \<rparr>
         else if command \<in> {''q'', ''quit''} then ls \<lparr> ls_stopped := True \<rparr>
         else if command \<in> {''p'', ''prev''}
         then ls \<lparr> ls_index := max 0 (idx - 1),
                   ls_state := st \<lparr> current_index := Some (max 0 (idx - 1)) \<rparr> \<rparr>
         else if command \<in> {''o'', ''open''} then ls
         else if command \<in> {''f'', ''fix''} then fix_command f e ext ls
         else if command \<in> {''a'', ''apply''} then apply_command f e ext ls
         else if command \<in> {''n'', ''next''}
         then ls \<lparr> ls_index := idx + 1,
                   ls_state := st \<lparr> findings := (findings st)
                                       (identifier f \<mapsto> e(''status'' \<mapsto> ''acknowledged'')),
                                    current_index := Some (idx + 1) \<rparr> \<rparr>
         else ls \<lparr> ls_output := ls_output ls @ [Unrecognised command] \<rparr>)"

text \<open>
  The loop over the typed lines, each with the answers of the outside world. It stops
  at \<open>quit\<close> and when the index leaves the list.
\<close>

definition loop_active :: "finding list \<Rightarrow> loop_state \<Rightarrow> bool" where
  "loop_active fs ls =
     (\<not> ls_stopped ls \<and> 0 \<le> ls_index ls \<and> ls_index ls < int (length fs))"

fun run_loop :: "finding list \<Rightarrow> (string \<times> externals) list \<Rightarrow> loop_state \<Rightarrow> loop_state" where
  "run_loop fs [] ls = ls"
| "run_loop fs ((raw, ext) # rest) ls =
     (if loop_active fs ls then run_loop fs rest (loop_step fs raw ext ls) else ls)"

text \<open>
  \<open>interactive_loop\<close>: the result is \<open>None\<close> when the typed lines run out while the
  loop still waits for a command (\<open>input\<close> raises \<open>EOFError\<close>).
\<close>

definition interactive_loop ::
    "finding list \<Rightarrow> review_state \<Rightarrow> (string \<times> externals) list \<Rightarrow> loop_state option" where
  "interactive_loop fs st typed =
     (let ls = run_loop fs typed
                 \<lparr> ls_index = initial_index fs st, ls_state = st, ls_stopped = False,
                   ls_output = [] \<rparr>;
          total = int (length fs)
      in if loop_active fs ls then None
         else Some (ls \<lparr> ls_state := (ls_state ls)
                                        \<lparr> current_index := Some (max 0 (min (ls_index ls) total)) \<rparr>,
                         ls_output := ls_output ls
                                      @ (if ls_index ls \<ge> total then [AllProcessed] else []) \<rparr>))"


section \<open>Notions used to state the properties\<close>

text \<open>
  The lines of a diff as the normaliser of \<open>postprocess_review.py\<close> reads them (its
  variable \<open>lines\<close>), what its second loop does to one line, and what the function does
  to the list of lines between the split and the join.
\<close>

definition patch_lines :: "string \<Rightarrow> string list" where
  "patch_lines patch = split_on CHR ''\<newline>'' (normalized_text patch)"

definition rewrite_header_line :: "string \<Rightarrow> string \<Rightarrow> string" where
  "rewrite_header_line ph l =
     (if prefix ''--- '' l
      then (if ph \<noteq> [] \<and> \<not> py_in ''/dev/null'' l then ''--- a/'' @ ph else l)
      else if prefix ''+++ '' l
      then (if ph \<noteq> [] \<and> \<not> py_in ''/dev/null'' l then ''+++ b/'' @ ph else l)
      else l)"

definition prepared_lines :: "string \<Rightarrow> string list \<Rightarrow> string list option" where
  "prepared_lines ph ls =
     (let dl = diff_line_of ph;
          p1 = snd (rewrite_first_diff ph dl ls);
          p2 = (if \<not> list_ex (prefix ''diff --git '') ls \<and> ph \<noteq> [] then dl # p1 else p1);
          has_old = list_ex (prefix ''--- '') p2;
          has_new = list_ex (prefix ''+++ '') p2;
          p3 = map (rewrite_header_line ph) p2
      in if has_old \<noteq> has_new then None
         else (case (if \<not> has_old \<and> \<not> has_new then synthesize_headers ph p3 else Some p3) of
                 None \<Rightarrow> None
               | Some p4 \<Rightarrow>
                   Some (if ph \<noteq> [] \<and> \<not> list_ex (prefix ''diff --git '') p4
                         then dl # p4 else p4)))"

text \<open>
  The text the normaliser of \<open>interactive_review.py\<close> searches and returns (its
  variable \<open>normalized\<close> after the newline is added).
\<close>

definition interactive_normalized :: "string \<Rightarrow> string" where
  "interactive_normalized patch =
     (let normalized = strip_chars ''\<newline>'' (py_replace [CHR 0x0D, CHR 0x0A] ''\<newline>'' patch)
      in if \<not> suffix ''\<newline>'' normalized then normalized @ ''\<newline>'' else normalized)"


text \<open>
  The entry the loop fetches for a finding (\<open>findings_state.get(identifier, {})\<close>) and
  the command it makes of a typed line.
\<close>

definition current_entry :: "review_state \<Rightarrow> string \<Rightarrow> entry" where
  "current_entry st fid = (case findings st fid of None \<Rightarrow> Map.empty | Some e0 \<Rightarrow> e0)"

definition typed_command :: "string \<Rightarrow> string" where
  "typed_command raw = (let typed = py_lower (py_strip raw) in if typed = [] then ''n'' else typed)"

text \<open>
  Concrete inputs for the examples: a finding on \<open>lib/foo.go\<close> with a given identifier
  and suggestion, a suggestion holding a complete diff, the state of a first run over
  two findings, the loop state it starts from, and an outside world that declines the
  assistant, confirms the patch and has \<open>git apply\<close> succeed.
\<close>

definition example_finding :: "string \<Rightarrow> string \<Rightarrow> finding" where
  "example_finding fid sugg =
     \<lparr> identifier = fid, title = ''Null check missing'', file = ''lib/foo.go'',
       lines = ''10-12'', suggestion = sugg, raw_block = [], details = [], reasoning = [],
       func = [] \<rparr>"

definition example_diff :: string where
  "example_diff = ''```diff\<newline>--- a/lib/foo.go\<newline>+++ b/lib/foo.go\<newline>@@ -1,1 +1,1 @@\<newline>-a\<newline>+b\<newline>```''"

definition example_state :: review_state where
  "example_state =
     ensure_state_for_findings \<lparr> review_hash = None, findings = Map.empty, current_index = None \<rparr>
       ''h'' [example_finding ''id0'' example_diff, example_finding ''id1'' []]"

definition example_start :: loop_state where
  "example_start =
     \<lparr> ls_index = initial_index [example_finding ''id0'' example_diff, example_finding ''id1'' []]
                    example_state,
       ls_state = example_state, ls_stopped = False, ls_output = [] \<rparr>"

definition example_answers :: externals where
  "example_answers =
     \<lparr> ai_output = None, generate_response = ''n'', confirm_response = ''y'',
       git_apply_ok = True \<rparr>"








text \<open>
  The lines after the first loop and the insertion of the \<open>diff --git\<close> line (the
  value of \<open>prepared\<close> before the second loop), and a line free of line breaks.
\<close>

definition with_diff_line :: "string \<Rightarrow> string list \<Rightarrow> string list" where
  "with_diff_line ph ls =
     (if \<not> list_ex (prefix ''diff --git '') ls \<and> ph \<noteq> []
      then diff_line_of ph # snd (rewrite_first_diff ph (diff_line_of ph) ls)
      else snd (rewrite_first_diff ph (diff_line_of ph) ls))"

definition clean_line :: "string \<Rightarrow> bool" where
  "clean_line l = (CHR ''\<newline>'' \<notin> set l \<and> CHR 0x0D \<notin> set l)"

section \<open>Properties of the string primitives and of the normalisers\<close>

lemma split_on_nonempty: "split_on c s \<noteq> []"
  by (induction s) (auto split: list.splits)

lemma split_on_last:
  "s \<noteq> [] \<Longrightarrow> last s \<noteq> c \<Longrightarrow> last (split_on c s) \<noteq> []"
proof (induction s)
  case Nil
  then show ?case by simp
next
  case (Cons x xs)
  show ?case
  proof (cases "xs = []")
    case True
    with Cons.prems show ?thesis by simp
  next
    case False
    with Cons.prems have "last xs \<noteq> c" by simp
    with Cons.IH False have "last (split_on c xs) \<noteq> []" by simp
    then show ?thesis
      using split_on_nonempty [of c xs] by (auto split: list.splits)
  qed
qed

lemma rstrip_chars_last:
  "rstrip_chars cs s \<noteq> [] \<Longrightarrow> last (rstrip_chars cs s) \<notin> set cs"
proof -
  assume a: "rstrip_chars cs s \<noteq> []"
  let ?d = "dropWhile (\<lambda>c. c \<in> set cs) (rev s)"
  from a have ne: "?d \<noteq> []" by (simp add: rstrip_chars_def)
  then have "hd ?d \<notin> set cs" by (rule hd_dropWhile)
  with ne show ?thesis by (simp add: rstrip_chars_def last_rev)
qed

lemma rstrip_chars_id:
  "s \<noteq> [] \<Longrightarrow> last s \<notin> set cs \<Longrightarrow> rstrip_chars cs s = s"
proof -
  assume "s \<noteq> []" "last s \<notin> set cs"
  then have "dropWhile (\<lambda>c. c \<in> set cs) (rev s) = rev s"
    by (cases "rev s") (auto simp: last_rev hd_rev)
  then show ?thesis by (simp add: rstrip_chars_def)
qed

lemma normalized_text_last:
  "normalized_text p \<noteq> [] \<Longrightarrow> last (normalized_text p) \<noteq> CHR ''\<newline>''"
  using rstrip_chars_last [of "''\<newline>''"] by (fastforce simp: normalized_text_def strip_chars_def)

lemma patch_lines_last:
  "normalized_text p \<noteq> [] \<Longrightarrow> last (patch_lines p) \<noteq> []"
  by (simp add: patch_lines_def split_on_last normalized_text_last)

lemma join_with_last:
  "ls \<noteq> [] \<Longrightarrow> last ls \<noteq> [] \<Longrightarrow>
     join_with sep ls \<noteq> [] \<and> last (join_with sep ls) = last (last ls)"
  by (induction sep ls rule: join_with.induct) auto

lemma rewrite_first_diff_absent:
  "\<not> list_ex (prefix ''diff --git '') ls \<Longrightarrow> rewrite_first_diff ph dl ls = (False, ls)"
  by (induction ls) auto

lemma old_new_exclusive: "prefix ''--- '' l \<Longrightarrow> \<not> prefix ''+++ '' l"
  by (cases l) auto

lemma rewrite_headers_eq:
  "rewrite_headers ph ls =
     (list_ex (prefix ''--- '') ls, list_ex (prefix ''+++ '') ls, map (rewrite_header_line ph) ls)"
  by (induction ls) (simp_all add: rewrite_header_line_def old_new_exclusive)

lemma rewrite_headers_absent:
  "\<not> list_ex (prefix ''--- '') ls \<Longrightarrow> \<not> list_ex (prefix ''+++ '') ls \<Longrightarrow>
     rewrite_headers ph ls = (False, False, ls)"
  by (induction ls) (simp_all add: old_new_exclusive)

lemma rewrite_header_line_absent:
  "\<not> list_ex (prefix ''--- '') ls \<Longrightarrow> \<not> list_ex (prefix ''+++ '') ls \<Longrightarrow>
     map (rewrite_header_line ph) ls = ls"
  by (induction ls) (simp_all add: rewrite_header_line_def)

lemma first_index_takeWhile:
  "list_ex P ls \<Longrightarrow> first_index P ls = Some (length (takeWhile (\<lambda>x. \<not> P x) ls))"
  by (induction ls) auto

lemma synthesize_headers_split:
  "ph \<noteq> [] \<Longrightarrow> list_ex (prefix ''@@'') ls \<Longrightarrow>
     synthesize_headers ph ls =
       Some (takeWhile (\<lambda>l. \<not> prefix ''@@'' l) ls
             @ [''--- a/'' @ ph, ''+++ b/'' @ ph]
             @ dropWhile (\<lambda>l. \<not> prefix ''@@'' l) ls)"
  by (simp add: synthesize_headers_def first_index_takeWhile takeWhile_eq_take [symmetric]
        dropWhile_eq_drop [symmetric])

lemma path_hint_x: "path_hint_of (Some ''src/x.go'') = ''src/x.go''"
  by (simp add: path_hint_of_def sanitize_path_def py_strip_def py_lstrip_def py_rstrip_def
        py_isspace_def)

lemma rewrite_first_diff_fst:
  "fst (rewrite_first_diff ph dl ls) = list_ex (prefix ''diff --git '') ls"
  by (induction ls) (auto split: prod.splits)

lemma split_on_no_sep: "l \<in> set (split_on c s) \<Longrightarrow> c \<notin> set l"
proof (induction s arbitrary: l)
  case Nil
  then show ?case by simp
next
  case (Cons x xs)
  then show ?case
    by (cases "split_on c xs") (auto split: if_splits)
qed

lemma prepare_eq:
  "postprocess_prepare_patch_for_application p f =
     (if normalized_text p = [] \<or> \<not> list_ex (prefix ''@@'') (patch_lines p) then None
      else map_option (\<lambda>ls. rstrip_chars ''\<newline>'' (join_with ''\<newline>'' ls) @ ''\<newline>'')
             (prepared_lines (path_hint_of f) (patch_lines p)))"
proof -
  obtain b ls' where r: "rewrite_first_diff (path_hint_of f) (diff_line_of (path_hint_of f))
      (patch_lines p) = (b, ls')"
    by (cases "rewrite_first_diff (path_hint_of f) (diff_line_of (path_hint_of f)) (patch_lines p)")
  from r have b: "b = list_ex (prefix ''diff --git '') (patch_lines p)"
    using rewrite_first_diff_fst [of "path_hint_of f" "diff_line_of (path_hint_of f)" "patch_lines p"]
    by simp
  show ?thesis
    unfolding postprocess_prepare_patch_for_application_def prepared_lines_def Let_def
      patch_lines_def [symmetric] r rewrite_headers_eq
    by (simp add: b split: option.splits)
qed

lemma finish_id:
  assumes "ls \<noteq> []" "last ls \<noteq> []" "last (last ls) \<noteq> CHR ''\<newline>''"
  shows "rstrip_chars ''\<newline>'' (join_with ''\<newline>'' ls) = join_with ''\<newline>'' ls"
  using assms join_with_last [of ls "''\<newline>''"] by (intro rstrip_chars_id) auto

text \<open>
  Claim C3. A diff with a hunk line but no \<open>--- \<close>, \<open>+++ \<close> or \<open>diff --git\<close> line,
  normalised for the target path \<open>src/x.go\<close>, comes back with exactly the lines
  \<open>--- a/src/x.go\<close> and \<open>+++ b/src/x.go\<close> put in immediately before its first
  \<open>@@\<close> line (the lines before the first hunk line, the two headers, then the hunk
  line and the rest), under the \<open>diff --git\<close> line that a known path always brings;
  with no target path the result is none.
\<close>

theorem synthesized_headers_before_first_hunk:
  assumes hunk: "list_ex (prefix ''@@'') (patch_lines p)"
      and no_old: "\<not> list_ex (prefix ''--- '') (patch_lines p)"
      and no_new: "\<not> list_ex (prefix ''+++ '') (patch_lines p)"
      and no_git: "\<not> list_ex (prefix ''diff --git '') (patch_lines p)"
  shows "postprocess_prepare_patch_for_application p (Some ''src/x.go'') =
           Some (join_with ''\<newline>''
                   (''diff --git a/src/x.go b/src/x.go''
                    # takeWhile (\<lambda>l. \<not> prefix ''@@'' l) (patch_lines p)
                    @ [''--- a/src/x.go'', ''+++ b/src/x.go'']
                    @ dropWhile (\<lambda>l. \<not> prefix ''@@'' l) (patch_lines p))
                 @ ''\<newline>'')
         \<and> postprocess_prepare_patch_for_application p None = None"
proof -
  let ?ls = "patch_lines p"
  let ?pre = "takeWhile (\<lambda>l. \<not> prefix ''@@'' l) ?ls"
  let ?post = "dropWhile (\<lambda>l. \<not> prefix ''@@'' l) ?ls"
  let ?git = "''diff --git a/src/x.go b/src/x.go''"
  let ?out = "?git # ?pre @ [''--- a/src/x.go'', ''+++ b/src/x.go''] @ ?post"
  have ne: "normalized_text p \<noteq> []"
  proof
    assume "normalized_text p = []"
    then have "?ls = [[]]" by (simp add: patch_lines_def)
    with hunk show False by simp
  qed
  have post_ne: "?post \<noteq> []"
    using hunk by (auto simp: list_ex_iff dropWhile_eq_Nil_conv)
  have last_ls: "last ?ls \<noteq> []" using ne by (rule patch_lines_last)
  have "last (?pre @ ?post) = last ?post"
    using post_ne by (rule last_appendR)
  then have "last ?ls = last ?post" by simp
  moreover have "last ?out = last ?post"
    using post_ne by (simp del: dropWhile_eq_Nil_conv)
  ultimately have last_eq: "last ?out = last ?ls" by simp
  have "last ?ls \<in> set ?ls"
    by (simp add: patch_lines_def split_on_nonempty)
  then have "CHR ''\<newline>'' \<notin> set (last ?ls)"
    unfolding patch_lines_def by (rule split_on_no_sep)
  with last_ls have "last (last ?ls) \<noteq> CHR ''\<newline>''"
    using last_in_set by metis
  with last_ls last_eq
  have fin: "rstrip_chars ''\<newline>'' (join_with ''\<newline>'' ?out) = join_with ''\<newline>'' ?out"
    by (intro finish_id) simp_all
  have git_no: "\<not> list_ex (prefix ''--- '') (?git # ?ls)" "\<not> list_ex (prefix ''+++ '') (?git # ?ls)"
    using no_old no_new by simp_all
  have same: "map (rewrite_header_line ''src/x.go'') (?git # ?ls) = ?git # ?ls"
    using rewrite_header_line_absent [OF git_no] .
  then have same': "rewrite_header_line ''src/x.go'' ?git
      # map (rewrite_header_line ''src/x.go'') ?ls = ?git # ?ls"
    by simp
  have syn: "synthesize_headers ''src/x.go'' (?git # ?ls) = Some ?out"
    using hunk by (simp add: synthesize_headers_split)
  have "prepared_lines ''src/x.go'' ?ls = Some ?out"
    unfolding prepared_lines_def Let_def
    using no_git no_old no_new
    by (simp add: rewrite_first_diff_absent diff_line_of_def same' syn)
  then have known: "postprocess_prepare_patch_for_application p (Some ''src/x.go'') =
      Some (join_with ''\<newline>'' ?out @ ''\<newline>'')"
    using ne hunk fin by (simp add: prepare_eq path_hint_x)
  have "prepared_lines [] ?ls = None"
    unfolding prepared_lines_def Let_def
    using no_git no_old no_new
    by (simp add: rewrite_first_diff_absent rewrite_header_line_def synthesize_headers_def)
  then have "postprocess_prepare_patch_for_application p None = None"
    by (simp add: prepare_eq path_hint_of_def)
  with known show ?thesis by simp
qed

theorem synthesized_headers_before_first_hunk_witness:
  "list_ex (prefix ''@@'') (patch_lines ''@@ -1,1 +1,1 @@\<newline>-a\<newline>+b\<newline>'')
   \<and> postprocess_prepare_patch_for_application ''@@ -1,1 +1,1 @@\<newline>-a\<newline>+b\<newline>''
         (Some ''src/x.go'')
       = Some ''diff --git a/src/x.go b/src/x.go\<newline>--- a/src/x.go\<newline>+++ b/src/x.go\<newline>@@ -1,1 +1,1 @@\<newline>-a\<newline>+b\<newline>''
   \<and> postprocess_prepare_patch_for_application ''@@ -1,1 +1,1 @@\<newline>-a\<newline>+b\<newline>'' None
       = None"
proof -
  let ?p = "''@@ -1,1 +1,1 @@\<newline>-a\<newline>+b\<newline>''"
  have l: "patch_lines ?p = [''@@ -1,1 +1,1 @@'', ''-a'', ''+b'']"
    by (simp add: patch_lines_def normalized_text_def strip_chars_def lstrip_chars_def
          rstrip_chars_def)
  show ?thesis
    using synthesized_headers_before_first_hunk [of ?p] by (simp add: l)
qed

lemma git_line_not_header:
  "prefix ''diff --git '' l \<Longrightarrow> \<not> prefix ''--- '' l \<and> \<not> prefix ''+++ '' l"
  by (cases l) auto

lemma diff_line_not_header:
  "\<not> prefix ''--- '' (diff_line_of ph) \<and> \<not> prefix ''+++ '' (diff_line_of ph)"
  by (simp add: diff_line_of_def)

lemma rewrite_first_diff_old:
  "list_ex (prefix ''--- '') (snd (rewrite_first_diff ph (diff_line_of ph) ls))
     = list_ex (prefix ''--- '') ls"
  by (induction ls) (auto simp: diff_line_not_header git_line_not_header split: prod.splits)

lemma rewrite_first_diff_new:
  "list_ex (prefix ''+++ '') (snd (rewrite_first_diff ph (diff_line_of ph) ls))
     = list_ex (prefix ''+++ '') ls"
  by (induction ls) (auto simp: diff_line_not_header git_line_not_header split: prod.splits)

lemma prepared_lines_single_header:
  assumes "list_ex (prefix ''--- '') ls \<noteq> list_ex (prefix ''+++ '') ls"
  shows "prepared_lines ph ls = None"
  using assms unfolding prepared_lines_def Let_def
  by (simp add: rewrite_first_diff_old rewrite_first_diff_new diff_line_not_header)

lemma interactive_prepare_eq:
  "interactive_prepare_patch_for_application p =
     (if py_strip (strip_chars ''\<newline>'' (py_replace [CHR 0x0D, CHR 0x0A] ''\<newline>'' p)) = []
         \<or> \<not> search_line_start ''--- '' (interactive_normalized p)
         \<or> \<not> search_line_start ''+++ '' (interactive_normalized p)
         \<or> \<not> search_line_start ''@@ '' (interactive_normalized p)
      then None else Some (interactive_normalized p))"
  by (simp add: interactive_prepare_patch_for_application_def interactive_normalized_def Let_def)

text \<open>
  Claim C4. A diff in which exactly one of the two file headers occurs (a line starting
  with \<open>--- \<close> but none starting with \<open>+++ \<close>, or the converse) is rejected by the
  normaliser of \<open>postprocess_review.py\<close> for every target path, known or not, and by
  the normaliser of \<open>interactive_review.py\<close>; each reads the lines its own way.
\<close>

theorem single_header_rejected:
  "(list_ex (prefix ''--- '') (patch_lines p) \<noteq> list_ex (prefix ''+++ '') (patch_lines p)
      \<longrightarrow> postprocess_prepare_patch_for_application p f = None)
   \<and> (search_line_start ''--- '' (interactive_normalized p)
        \<noteq> search_line_start ''+++ '' (interactive_normalized p)
      \<longrightarrow> interactive_prepare_patch_for_application p = None)"
proof (intro conjI impI)
  assume "list_ex (prefix ''--- '') (patch_lines p) \<noteq> list_ex (prefix ''+++ '') (patch_lines p)"
  then show "postprocess_prepare_patch_for_application p f = None"
    by (simp add: prepare_eq prepared_lines_single_header)
next
  assume "search_line_start ''--- '' (interactive_normalized p)
            \<noteq> search_line_start ''+++ '' (interactive_normalized p)"
  then show "interactive_prepare_patch_for_application p = None"
    by (auto simp: interactive_prepare_eq)
qed

theorem single_header_rejected_witness:
  "list_ex (prefix ''--- '') (patch_lines ''--- a/q\<newline>@@ -1,1 +1,1 @@\<newline>-a\<newline>+b\<newline>'')
   \<and> \<not> list_ex (prefix ''+++ '') (patch_lines ''--- a/q\<newline>@@ -1,1 +1,1 @@\<newline>-a\<newline>+b\<newline>'')
   \<and> postprocess_prepare_patch_for_application
         ''--- a/q\<newline>@@ -1,1 +1,1 @@\<newline>-a\<newline>+b\<newline>'' (Some ''src/x.go'') = None
   \<and> search_line_start ''--- ''
         (interactive_normalized ''--- a/q\<newline>@@ -1,1 +1,1 @@\<newline>-a\<newline>+b\<newline>'')
   \<and> \<not> search_line_start ''+++ ''
         (interactive_normalized ''--- a/q\<newline>@@ -1,1 +1,1 @@\<newline>-a\<newline>+b\<newline>'')
   \<and> interactive_prepare_patch_for_application
         ''--- a/q\<newline>@@ -1,1 +1,1 @@\<newline>-a\<newline>+b\<newline>'' = None"
proof -
  let ?p = "''--- a/q\<newline>@@ -1,1 +1,1 @@\<newline>-a\<newline>+b\<newline>''"
  have l: "patch_lines ?p = [''--- a/q'', ''@@ -1,1 +1,1 @@'', ''-a'', ''+b'']"
    by (simp add: patch_lines_def normalized_text_def strip_chars_def lstrip_chars_def
          rstrip_chars_def)
  have n: "interactive_normalized ?p = ?p"
    by (simp add: interactive_normalized_def strip_chars_def lstrip_chars_def rstrip_chars_def
          suffix_to_prefix Let_def)
  have s: "search_line_start ''--- '' ?p" "\<not> search_line_start ''+++ '' ?p"
    by (simp_all add: search_line_start_def)
  show ?thesis
    using single_header_rejected [of ?p "Some ''src/x.go''"] by (simp add: l n s)
qed



section \<open>Properties of the triage state and of the loop\<close>

lemma setdefault_entries_apply:
  "setdefault_entries fs m k =
     (case m k of
        Some e \<Rightarrow> Some e
      | None \<Rightarrow> if k \<in> identifier ` set fs then Some fresh_entry else None)"
  by (induction fs arbitrary: m) (auto split: option.splits)

text \<open>
  Claim C6. When the stored fingerprint differs from the fingerprint of the freshly
  parsed report (or is missing), reconciliation returns a state with the new
  fingerprint and cursor 0 whose entry map has exactly the identifiers of the current
  findings as keys, each bound to a fresh entry with status \<open>pending\<close> and empty
  \<open>last_ai_output\<close>, \<open>last_patch\<close> and \<open>last_patch_source\<close>, also for an identifier that
  had an entry before.
\<close>

theorem changed_report_resets_state:
  assumes "review_hash st \<noteq> Some h"
  shows "review_hash (ensure_state_for_findings st h fs) = Some h
       \<and> current_index (ensure_state_for_findings st h fs) = Some 0
       \<and> dom (findings (ensure_state_for_findings st h fs)) = identifier ` set fs
       \<and> (\<forall>f \<in> set fs.
            findings (ensure_state_for_findings st h fs) (identifier f)
              = Some [''status'' \<mapsto> ''pending'', ''last_ai_output'' \<mapsto> [],
                      ''last_patch'' \<mapsto> [], ''last_patch_source'' \<mapsto> []])"
  using assms
  by (auto simp: ensure_state_for_findings_def Let_def setdefault_entries_apply fresh_entry_def
        dom_def split: option.splits if_splits)

text \<open>
  The witness: an old state in which \<open>id0\<close> is fixed and the cursor is 1, reconciled
  under another fingerprint against a report that still has \<open>id0\<close>.
\<close>

theorem changed_report_resets_state_witness:
  "review_hash \<lparr> review_hash = Some ''old'',
                 findings = [''id0'' \<mapsto> [''status'' \<mapsto> ''fixed'']],
                 current_index = Some 1 \<rparr> \<noteq> Some ''new''
   \<and> findings (ensure_state_for_findings
                 \<lparr> review_hash = Some ''old'',
                   findings = [''id0'' \<mapsto> [''status'' \<mapsto> ''fixed'']],
                   current_index = Some 1 \<rparr>
                 ''new'' [example_finding ''id0'' []]) ''id0''
       = Some [''status'' \<mapsto> ''pending'', ''last_ai_output'' \<mapsto> [],
               ''last_patch'' \<mapsto> [], ''last_patch_source'' \<mapsto> []]
   \<and> current_index (ensure_state_for_findings
                 \<lparr> review_hash = Some ''old'',
                   findings = [''id0'' \<mapsto> [''status'' \<mapsto> ''fixed'']],
                   current_index = Some 1 \<rparr>
                 ''new'' [example_finding ''id0'' []]) = Some 0"
  using changed_report_resets_state
    [of "\<lparr> review_hash = Some ''old'',
                 findings = [''id0'' \<mapsto> [''status'' \<mapsto> ''fixed'']],
                 current_index = Some 1 \<rparr>" "''new''" "[example_finding ''id0'' []]"]
  by (simp add: example_finding_def)

text \<open>
  Claim C7, as amended. The loop starts at the persisted cursor whenever the cursor is
  below the number of findings, whatever the status of the finding it points at; it
  starts at the first pending finding only when the cursor is at or past the end of the
  list, or missing.
\<close>

theorem initial_index_from_cursor:
  "initial_index fs st =
     (case current_index st of
        Some c \<Rightarrow> if c < int (length fs) then c else int (find_first_pending_index fs st)
      | None \<Rightarrow> int (find_first_pending_index fs st))"
proof -
  have "find_first_pending_index fs st \<le> length fs"
  proof -
    have "i \<le> length xs" if "first_index P xs = Some i" for P and xs :: "finding list" and i
      using that by (induction xs arbitrary: i) (auto split: if_splits option.splits)
    then show ?thesis
      by (auto simp: find_first_pending_index_def split: option.splits)
  qed
  then show ?thesis
    by (auto simp: initial_index_def Let_def min_def split: option.splits)
qed

text \<open>
  Claim C7 as stated fails: with two findings, the first acknowledged and the second
  pending, and the cursor persisted at 0 (as \<open>next\<close> then \<open>prev\<close> then \<open>quit\<close> leave it),
  the cursor points at a resolved finding, yet the loop starts at 0 and not at the first
  pending finding, 1.
\<close>

theorem resolved_cursor_not_fast_forwarded:
  "\<not> (is_resolved (status_of
          (findings \<lparr> review_hash = Some ''h'',
                      findings = [''id0'' \<mapsto> [''status'' \<mapsto> ''acknowledged''],
                                  ''id1'' \<mapsto> [''status'' \<mapsto> ''pending'']],
                      current_index = Some 0 \<rparr>)
          (identifier ([example_finding ''id0'' [], example_finding ''id1'' []] ! 0)))
        \<longrightarrow>
        initial_index [example_finding ''id0'' [], example_finding ''id1'' []]
          \<lparr> review_hash = Some ''h'',
            findings = [''id0'' \<mapsto> [''status'' \<mapsto> ''acknowledged''],
                        ''id1'' \<mapsto> [''status'' \<mapsto> ''pending'']],
            current_index = Some 0 \<rparr>
        = int (find_first_pending_index [example_finding ''id0'' [], example_finding ''id1'' []]
          \<lparr> review_hash = Some ''h'',
            findings = [''id0'' \<mapsto> [''status'' \<mapsto> ''acknowledged''],
                        ''id1'' \<mapsto> [''status'' \<mapsto> ''pending'']],
            current_index = Some 0 \<rparr>))"
  by (simp add: example_finding_def initial_index_def find_first_pending_index_def
        is_resolved_def status_of_def entry_status_def)


lemma entry_status_patch [simp]:
  "entry_status (clear_patch e) = entry_status e"
  "entry_status (store_patch e p src) = entry_status e"
  "entry_status (e(''last_ai_output'' \<mapsto> v)) = entry_status e"
  by (simp_all add: entry_status_def clear_patch_def store_patch_def)

lemma apply_cached_status: "entry_status (ctx_entry (apply_cached e)) = entry_status e"
  by (simp add: apply_cached_def Let_def)

lemma apply_suggestion_status:
  "entry_status (ctx_entry (apply_suggestion f ctx)) = entry_status (ctx_entry ctx)"
  by (simp add: apply_suggestion_def Let_def)

lemma apply_ai_status:
  "apply_ai ext ctx = Inl ctx' \<or> apply_ai ext ctx = Inr ctx' \<Longrightarrow>
     entry_status (ctx_entry ctx') = entry_status (ctx_entry ctx)"
  by (auto simp: apply_ai_def Let_def split: if_splits)

lemma status_of_current: "entry_status (current_entry st fid) = status_of (findings st) fid"
  by (simp add: current_entry_def status_of_def entry_status_def split: option.splits)

lemma store_entry_status:
  "entry_status (ctx_entry ctx) = status_of (findings st) fid \<Longrightarrow>
     status_of (findings (store_entry st fid ctx)) k = status_of (findings st) k"
  by (simp add: store_entry_def status_of_def)

lemma status_of_upd:
  "status_of (m(fid \<mapsto> e)) k = (if k = fid then entry_status e else status_of m k)"
  by (simp add: status_of_def)

lemma entry_status_set:
  "entry_status (e(''status'' \<mapsto> v, ''last_patch_source'' \<mapsto> src)) = v"
  "entry_status (e(''status'' \<mapsto> v)) = v"
  by (simp_all add: entry_status_def)

lemma apply_command_status:
  assumes "e = current_entry (ls_state ls) (identifier f)"
  shows "status_of (findings (ls_state (apply_command f e ext ls))) k
           = status_of (findings (ls_state ls)) k
         \<or> (k = identifier f
            \<and> status_of (findings (ls_state (apply_command f e ext ls))) k = ''fixed'')"
proof -
  let ?st = "ls_state ls" and ?fid = "identifier f"
  let ?r = "apply_ai ext (apply_suggestion f (apply_cached e))"
  have base: "entry_status (ctx_entry (apply_suggestion f (apply_cached e)))
      = status_of (findings ?st) ?fid"
    by (simp add: apply_suggestion_status apply_cached_status assms status_of_current)
  show ?thesis
  proof (cases ?r)
    case (Inl ctx)
    then have "entry_status (ctx_entry ctx) = status_of (findings ?st) ?fid"
      using apply_ai_status [of ext _ ctx] base by metis
    then show ?thesis
      using Inl by (simp add: apply_command_def Let_def store_entry_status)
  next
    case (Inr ctx)
    then have "entry_status (ctx_entry ctx) = status_of (findings ?st) ?fid"
      using apply_ai_status [of ext _ ctx] base by metis
    then show ?thesis
      using Inr
      by (simp add: apply_command_def Let_def store_entry_status status_of_upd entry_status_set
            split: prod.splits)
  qed
qed

lemma fix_command_status:
  assumes "e = current_entry (ls_state ls) (identifier f)"
  shows "status_of (findings (ls_state (fix_command f e ext ls))) k
           = status_of (findings (ls_state ls)) k"
  using status_of_current [of "ls_state ls" "identifier f"] assms
  by (simp add: fix_command_def Let_def status_of_upd)

lemma loop_step_status:
  "status_of (findings (ls_state (loop_step fs raw ext ls))) k
     = status_of (findings (ls_state ls)) k
   \<or> (k = identifier (fs ! nat (ls_index ls))
      \<and> typed_command raw \<in> {''a'', ''apply''}
      \<and> status_of (findings (ls_state (loop_step fs raw ext ls))) k = ''fixed'')
   \<or> (k = identifier (fs ! nat (ls_index ls))
      \<and> typed_command raw \<in> {''n'', ''next''}
      \<and> status_of (findings (ls_state (loop_step fs raw ext ls))) k = ''acknowledged'')"
proof -
  let ?f = "fs ! nat (ls_index ls)"
  let ?e = "current_entry (ls_state ls) (identifier ?f)"
  note a = apply_command_status [of ?e ls ?f ext k, OF refl]
  note f = fix_command_status [of ?e ls ?f ext k, OF refl]
  show ?thesis
    unfolding loop_step_def Let_def typed_command_def [symmetric, unfolded Let_def]
      current_entry_def [symmetric]
    using a f status_of_current [of "ls_state ls" "identifier ?f"]
    by (simp add: status_of_upd entry_status_set)
qed


text \<open>
  Claim C8, as amended. One command changes the status of a finding only in two ways:
  \<open>apply\<close> sets the current finding to \<open>fixed\<close>, and \<open>next\<close> sets the current finding to
  \<open>acknowledged\<close>, whatever it was before. So over any sequence of commands a finding that
  is acknowledged or fixed never becomes pending again; a fixed finding does become
  acknowledged when \<open>next\<close> is typed on it.
\<close>

theorem status_never_back_to_pending:
  "(status_of (findings (ls_state (loop_step fs raw ext ls))) k
      = status_of (findings (ls_state ls)) k
    \<or> (k = identifier (fs ! nat (ls_index ls))
       \<and> typed_command raw \<in> {''a'', ''apply''}
       \<and> status_of (findings (ls_state (loop_step fs raw ext ls))) k = ''fixed'')
    \<or> (k = identifier (fs ! nat (ls_index ls))
       \<and> typed_command raw \<in> {''n'', ''next''}
       \<and> status_of (findings (ls_state (loop_step fs raw ext ls))) k = ''acknowledged''))
   \<and> (is_resolved (status_of (findings (ls_state ls)) k)
        \<longrightarrow> is_resolved (status_of (findings (ls_state (run_loop fs typed ls))) k))"
proof
  show "status_of (findings (ls_state (loop_step fs raw ext ls))) k
      = status_of (findings (ls_state ls)) k
    \<or> (k = identifier (fs ! nat (ls_index ls))
       \<and> typed_command raw \<in> {''a'', ''apply''}
       \<and> status_of (findings (ls_state (loop_step fs raw ext ls))) k = ''fixed'')
    \<or> (k = identifier (fs ! nat (ls_index ls))
       \<and> typed_command raw \<in> {''n'', ''next''}
       \<and> status_of (findings (ls_state (loop_step fs raw ext ls))) k = ''acknowledged'')"
    by (rule loop_step_status)
next
  have step: "is_resolved (status_of (findings (ls_state (loop_step fs r x l))) k)"
    if "is_resolved (status_of (findings (ls_state l)) k)" for r x l
    using loop_step_status [of fs r x l k] that by (auto simp: is_resolved_def)
  have "is_resolved (status_of (findings (ls_state l)) k)
        \<Longrightarrow> is_resolved (status_of (findings (ls_state (run_loop fs typed l))) k)" for l
  proof (induction typed arbitrary: l)
    case Nil
    then show ?case by simp
  next
    case (Cons a typed)
    obtain r x where a: "a = (r, x)" by (cases a)
    show ?case
      using Cons.prems Cons.IH [of "loop_step fs r x l"] step [of l r x]
      by (simp add: a)
  qed
  then show "is_resolved (status_of (findings (ls_state ls)) k)
        \<longrightarrow> is_resolved (status_of (findings (ls_state (run_loop fs typed ls))) k)"
    by simp
qed

text \<open>
  Claim C8 as stated fails: in a session over two findings, \<open>apply\<close> fixes the first
  one; \<open>prev\<close> then \<open>next\<close> on it leave it acknowledged.
\<close>

theorem fixed_becomes_acknowledged:
  "status_of (findings (ls_state
       (run_loop [example_finding ''id0'' example_diff, example_finding ''id1'' []]
          [(''a'', example_answers)] example_start))) ''id0'' = ''fixed''
   \<and> status_of (findings (ls_state
       (run_loop [example_finding ''id0'' example_diff, example_finding ''id1'' []]
          [(''a'', example_answers), (''p'', example_answers), (''n'', example_answers)]
          example_start))) ''id0'' = ''acknowledged''"
  unfolding example_start_def example_state_def example_answers_def example_finding_def
    example_diff_def
  by code_simp

text \<open>
  The witness: the first finding, fixed by \<open>apply\<close>, is still resolved after \<open>prev\<close> and
  \<open>next\<close>.
\<close>

theorem status_never_back_to_pending_witness:
  "is_resolved (status_of (findings (ls_state
       (run_loop [example_finding ''id0'' example_diff, example_finding ''id1'' []]
          [(''a'', example_answers)] example_start))) ''id0'')
   \<and> is_resolved (status_of (findings (ls_state
       (run_loop [example_finding ''id0'' example_diff, example_finding ''id1'' []]
          [(''p'', example_answers), (''n'', example_answers)]
          (run_loop [example_finding ''id0'' example_diff, example_finding ''id1'' []]
             [(''a'', example_answers)] example_start)))) ''id0'')"
proof -
  let ?fs = "[example_finding ''id0'' example_diff, example_finding ''id1'' []]"
  let ?l = "run_loop ?fs [(''a'', example_answers)] example_start"
  have h: "is_resolved (status_of (findings (ls_state ?l)) ''id0'')"
    unfolding example_start_def example_state_def example_answers_def example_finding_def
      example_diff_def
    by code_simp
  from status_never_back_to_pending
    [of ?fs "[]" example_answers ?l "''id0''" "[(''p'', example_answers), (''n'', example_answers)]"]
  have "is_resolved (status_of (findings (ls_state ?l)) ''id0'')
        \<longrightarrow> is_resolved (status_of (findings (ls_state
              (run_loop ?fs [(''p'', example_answers), (''n'', example_answers)] ?l))) ''id0'')"
    by (rule conjunct2)
  with h show ?thesis by simp
qed



section \<open>Properties of diff extraction\<close>





















section \<open>Properties of the apply command\<close>

















section \<open>Properties of the report parser\<close>

text \<open>
  Claim C2. The parser is to keep an assessment block exactly when its grade, trimmed,
  equals \<open>BAD\<close> without regard to case. The code upper-cases the captured grade before
  comparing it, but the block pattern captures the grade with \<open>[A-Z]+\<close>: a header
  graded \<open>bad\<close> does not match the pattern at all, and one graded \<open>Bad\<close> is captured as
  \<open>B\<close>. Both blocks are dropped, where the same block graded \<open>BAD\<close> gives a finding.
\<close>

theorem lowercase_grade_dropped:
  "parse_bad_findings sha256_hex
     ''## Change-by-Change Review\<newline>\<newline>### Assessment of the change: bad\<newline>**Title**: x\<newline>'' = []
   \<and> parse_bad_findings sha256_hex
     ''## Change-by-Change Review\<newline>\<newline>### Assessment of the change: Bad\<newline>**Title**: x\<newline>'' = []
   \<and> map title (parse_bad_findings sha256_hex
     ''## Change-by-Change Review\<newline>\<newline>### Assessment of the change: BAD\<newline>**Title**: x\<newline>'') = [''x'']"
  by code_simp


section \<open>Idempotence of the normaliser of \<open>postprocess_review.py\<close>\<close>

lemma py_replace_absent:
  "old \<noteq> [] \<Longrightarrow> hd old \<notin> set s \<Longrightarrow> py_replace old new s = s"
proof (induction s)
  case Nil
  then show ?case by simp
next
  case (Cons c cs)
  have "\<not> prefix old (c # cs)"
  proof
    assume "prefix old (c # cs)"
    then have "hd old = c" using Cons.prems(1) by (cases old) auto
    with Cons.prems(2) show False by simp
  qed
  with Cons show ?case by simp
qed

lemma py_replace_chars:
  "set (py_replace old new s) \<subseteq> set s \<union> set new"
proof (induction old new s rule: py_replace.induct)
  case (1 old new)
  then show ?case by simp
next
  case (2 old new c cs)
  show ?case
  proof (cases "old \<noteq> [] \<and> prefix old (c # cs)")
    case True
    then have "set (py_replace old new (drop (length old) (c # cs)))
        \<subseteq> set (drop (length old) (c # cs)) \<union> set new"
      using "2.IH"(1) by blast
    moreover have "set (drop (length old) (c # cs)) \<subseteq> set (c # cs)"
      by (rule set_drop_subset)
    ultimately show ?thesis using True by auto
  next
    case False
    then have "set (py_replace old new cs) \<subseteq> set cs \<union> set new"
      using "2.IH"(2) by blast
    then show ?thesis using False by auto
  qed
qed

lemma py_replace_single_gone:
  "c \<notin> set new \<Longrightarrow> c \<notin> set (py_replace [c] new s)"
  by (induction s) auto

lemma strip_chars_subset: "set (strip_chars cs s) \<subseteq> set s"
proof -
  have "set (rev (dropWhile (\<lambda>c. c \<in> set cs) (rev (dropWhile (\<lambda>c. c \<in> set cs) s))))
      \<subseteq> set (dropWhile (\<lambda>c. c \<in> set cs) s)"
    using set_dropWhileD by fastforce
  also have "\<dots> \<subseteq> set s" using set_dropWhileD by fastforce
  finally show ?thesis by (simp add: strip_chars_def rstrip_chars_def lstrip_chars_def)
qed

lemma normalized_text_no_cr: "CHR 0x0D \<notin> set (normalized_text p)"
proof -
  have "CHR 0x0D \<notin> set (py_replace [CHR 0x0D] ''\<newline>''
      (py_replace [CHR 0x0D, CHR 0x0A] ''\<newline>'' p))"
    by (rule py_replace_single_gone) simp
  then show ?thesis
    using strip_chars_subset unfolding normalized_text_def by blast
qed

lemma split_on_chars: "l \<in> set (split_on c s) \<Longrightarrow> set l \<subseteq> set s"
proof (induction s arbitrary: l)
  case Nil
  then show ?case by simp
next
  case (Cons x xs)
  show ?case
  proof (cases "x = c")
    case True
    with Cons.prems have "l = [] \<or> l \<in> set (split_on c xs)" by simp
    with Cons.IH show ?thesis by auto
  next
    case False
    obtain a as where sp: "split_on c xs = a # as"
      using split_on_nonempty [of c xs] by (cases "split_on c xs") auto
    with False Cons.prems have "l = x # a \<or> l \<in> set as" by simp
    moreover have "set a \<subseteq> set xs" using Cons.IH [of a] sp by simp
    moreover have "l \<in> set as \<Longrightarrow> set l \<subseteq> set xs" using Cons.IH [of l] sp by simp
    ultimately show ?thesis by auto
  qed
qed

lemma patch_lines_clean:
  "l \<in> set (patch_lines p) \<Longrightarrow> CHR ''\<newline>'' \<notin> set l \<and> CHR 0x0D \<notin> set l"
  using split_on_no_sep [of l "CHR ''\<newline>''" "normalized_text p"]
    split_on_chars [of l "CHR ''\<newline>''" "normalized_text p"] normalized_text_no_cr [of p]
  by (auto simp: patch_lines_def)

lemma split_on_join:
  "ls \<noteq> [] \<Longrightarrow> \<forall>l \<in> set ls. c \<notin> set l \<Longrightarrow> split_on c (join_with [c] ls) = ls"
proof (induction "[c]" ls rule: join_with.induct)
  case 1
  then show ?case by simp
next
  case (2 x)
  have "c \<notin> set x \<Longrightarrow> split_on c x = [x]" for x
    by (induction x) auto
  with 2 show ?case by simp
next
  case (3 x y ys)
  have app: "c \<notin> set x \<Longrightarrow> split_on c (x @ c # r) = x # split_on c r" for x r
    by (induction x) auto
  from 3 show ?case by (simp add: app)
qed

lemma rstrip_chars_decomp:
  "s = rstrip_chars cs s @ rev (takeWhile (\<lambda>c. c \<in> set cs) (rev s))"
proof -
  have "rev s = takeWhile (\<lambda>c. c \<in> set cs) (rev s) @ dropWhile (\<lambda>c. c \<in> set cs) (rev s)"
    by simp
  then have "rev (rev s) = rev (takeWhile (\<lambda>c. c \<in> set cs) (rev s)
      @ dropWhile (\<lambda>c. c \<in> set cs) (rev s))"
    by simp
  then show ?thesis
    unfolding rstrip_chars_def rev_append by simp
qed

lemma strip_chars_hd:
  assumes "strip_chars cs s \<noteq> []"
  shows "hd (strip_chars cs s) \<notin> set cs"
proof -
  let ?d = "lstrip_chars cs s"
  have d: "?d = strip_chars cs s @ rev (takeWhile (\<lambda>c. c \<in> set cs) (rev ?d))"
    unfolding strip_chars_def by (rule rstrip_chars_decomp)
  with assms have "?d \<noteq> []" by auto
  then have "hd ?d \<notin> set cs"
    unfolding lstrip_chars_def by (rule hd_dropWhile)
  moreover have "hd ?d = hd (strip_chars cs s)"
    using assms d by (metis hd_append2)
  ultimately show ?thesis by simp
qed

lemma split_on_hd:
  "s \<noteq> [] \<Longrightarrow> hd s \<noteq> c \<Longrightarrow> hd (split_on c s) \<noteq> []"
  by (cases s) (auto split: list.splits)

lemma hd_patch_lines:
  assumes "normalized_text p \<noteq> []"
  shows "hd (patch_lines p) \<noteq> []"
proof -
  have "hd (normalized_text p) \<notin> set ''\<newline>''"
    using assms unfolding normalized_text_def by (rule strip_chars_hd)
  then show ?thesis
    using assms by (simp add: patch_lines_def split_on_hd)
qed

lemma find_append_cases:
  "find P (xs @ ys) = (case find P xs of None \<Rightarrow> find P ys | Some x \<Rightarrow> Some x)"
  by (induction xs) auto

lemma find_insert_between:
  assumes "\<not> P a" "\<not> P b"
  shows "find P (take i xs @ [a, b] @ drop i xs) = find P xs"
proof -
  have "find P (take i xs @ [a, b] @ drop i xs)
      = (case find P (take i xs) of None \<Rightarrow> find P (drop i xs) | Some x \<Rightarrow> Some x)"
    using assms by (simp add: find_append_cases cong: option.case_cong)
  also have "\<dots> = find P (take i xs @ drop i xs)"
    by (simp only: find_append_cases)
  finally show ?thesis by simp
qed

lemma find_map_stable:
  "(\<And>l. P (f l) = P l) \<Longrightarrow> (\<And>l. P l \<Longrightarrow> f l = l) \<Longrightarrow> find P (map f xs) = find P xs"
  by (induction xs) auto

lemma rewrite_first_diff_fixed:
  "find (prefix ''diff --git '') xs = None \<or> find (prefix ''diff --git '') xs = Some dl \<Longrightarrow>
     snd (rewrite_first_diff ph dl xs) = xs"
  by (induction xs) (auto split: prod.splits if_splits)

lemma rewrite_first_diff_find:
  "ph \<noteq> [] \<Longrightarrow> prefix ''diff --git '' dl \<Longrightarrow> list_ex (prefix ''diff --git '') xs \<Longrightarrow>
     find (prefix ''diff --git '') (snd (rewrite_first_diff ph dl xs)) = Some dl"
  by (induction xs) (auto split: prod.splits)

lemma diff_line_git: "ph \<noteq> [] \<Longrightarrow> prefix ''diff --git '' (diff_line_of ph)"
  by (simp add: diff_line_of_def)

lemma rewrite_first_diff_update:
  "ph \<noteq> [] \<Longrightarrow> first_index (prefix ''diff --git '') xs = Some i \<Longrightarrow>
     snd (rewrite_first_diff ph dl xs) = xs[i := dl]"
  by (induction xs arbitrary: i) (auto split: prod.splits option.splits if_splits)

lemma first_index_Some:
  "first_index P xs = Some i \<Longrightarrow> i < length xs \<and> P (xs ! i)"
  by (induction xs arbitrary: i) (auto split: option.splits if_splits)

lemma first_index_ex: "list_ex P xs \<Longrightarrow> \<exists>i. first_index P xs = Some i"
  by (induction xs) auto

lemma first_index_None: "first_index P xs = None \<longleftrightarrow> \<not> list_ex P xs"
  by (induction xs) (auto split: option.splits)

text \<open>What the second loop does to one line.\<close>

lemma rhl_git: "prefix ''diff --git '' l \<Longrightarrow> rewrite_header_line ph l = l"
  using git_line_not_header [of l] by (simp add: rewrite_header_line_def)

lemma rhl_git_iff: "prefix ''diff --git '' (rewrite_header_line ph l) = prefix ''diff --git '' l"
  using git_line_not_header [of l] by (auto simp: rewrite_header_line_def)

lemma rhl_old_iff: "prefix ''--- '' (rewrite_header_line ph l) = prefix ''--- '' l"
  using old_new_exclusive [of l] by (auto simp: rewrite_header_line_def)

lemma rhl_new_iff: "prefix ''+++ '' (rewrite_header_line ph l) = prefix ''+++ '' l"
  using old_new_exclusive [of l] by (auto simp: rewrite_header_line_def)

lemma rhl_hunk_iff: "prefix ''@@'' (rewrite_header_line ph l) = prefix ''@@'' l"
proof -
  have "prefix ''@@'' l \<Longrightarrow> \<not> prefix ''--- '' l \<and> \<not> prefix ''+++ '' l"
    by (cases l) auto
  then show ?thesis by (auto simp: rewrite_header_line_def)
qed

lemma rhl_idem: "rewrite_header_line ph (rewrite_header_line ph l) = rewrite_header_line ph l"
  by (auto simp: rewrite_header_line_def)

lemma rhl_headers:
  "rewrite_header_line ph (''--- a/'' @ ph) = ''--- a/'' @ ph"
  "rewrite_header_line ph (''+++ b/'' @ ph) = ''+++ b/'' @ ph"
  by (auto simp: rewrite_header_line_def)

lemma rhl_empty_path: "rewrite_header_line [] l = l"
  by (simp add: rewrite_header_line_def)

lemma rhl_nonempty: "l \<noteq> [] \<Longrightarrow> rewrite_header_line ph l \<noteq> []"
  by (auto simp: rewrite_header_line_def)

lemma list_ex_map_rhl:
  "list_ex (prefix ''--- '') (map (rewrite_header_line ph) xs) = list_ex (prefix ''--- '') xs"
  "list_ex (prefix ''+++ '') (map (rewrite_header_line ph) xs) = list_ex (prefix ''+++ '') xs"
  "list_ex (prefix ''@@'') (map (rewrite_header_line ph) xs) = list_ex (prefix ''@@'') xs"
  "list_ex (prefix ''diff --git '') (map (rewrite_header_line ph) xs)
     = list_ex (prefix ''diff --git '') xs"
  by (simp_all add: list_ex_iff rhl_old_iff rhl_new_iff rhl_hunk_iff rhl_git_iff)

text \<open>A list of lines that the function leaves as it is.\<close>

lemma prepared_lines_fixed:
  assumes "ph \<noteq> [] \<Longrightarrow> find (prefix ''diff --git '') out = Some (diff_line_of ph)"
      and "list_ex (prefix ''--- '') out" "list_ex (prefix ''+++ '') out"
      and "map (rewrite_header_line ph) out = out"
  shows "prepared_lines ph out = Some out"
proof (cases "ph = []")
  case True
  have "snd (rewrite_first_diff [] [] out) = out"
    by (induction out) (auto split: prod.splits)
  then show ?thesis
    using assms(2,3,4) True
    by (simp add: prepared_lines_def Let_def diff_line_of_def)
next
  case False
  with assms(1) have f: "find (prefix ''diff --git '') out = Some (diff_line_of ph)" by simp
  then have g: "list_ex (prefix ''diff --git '') out"
    by (metis find_None_iff list_ex_iff option.distinct(1))
  have r: "snd (rewrite_first_diff ph (diff_line_of ph) out) = out"
    using f by (simp add: rewrite_first_diff_fixed)
  show ?thesis
    using assms(2,3,4) g r False
    by (simp add: prepared_lines_def Let_def)
qed

lemma prepared_lines_alt:
  "prepared_lines ph ls =
     (let p3 = map (rewrite_header_line ph) (with_diff_line ph ls)
      in if list_ex (prefix ''--- '') p3 \<noteq> list_ex (prefix ''+++ '') p3 then None
         else (case (if \<not> list_ex (prefix ''--- '') p3 \<and> \<not> list_ex (prefix ''+++ '') p3
                     then synthesize_headers ph p3 else Some p3) of
                 None \<Rightarrow> None
               | Some p4 \<Rightarrow>
                   Some (if ph \<noteq> [] \<and> \<not> list_ex (prefix ''diff --git '') p4
                         then diff_line_of ph # p4 else p4)))"
  by (simp add: prepared_lines_def with_diff_line_def Let_def list_ex_map_rhl)

lemma rewrite_first_diff_empty_path: "snd (rewrite_first_diff [] dl xs) = xs"
  by (induction xs) (auto split: prod.splits)

lemma with_diff_line_empty: "with_diff_line [] ls = ls"
  by (simp add: with_diff_line_def rewrite_first_diff_empty_path)

lemma with_diff_line_cases:
  assumes "ph \<noteq> []"
  shows "with_diff_line ph ls =
           (case first_index (prefix ''diff --git '') ls of
              None \<Rightarrow> diff_line_of ph # ls
            | Some i \<Rightarrow> ls[i := diff_line_of ph])"
proof (cases "first_index (prefix ''diff --git '') ls")
  case None
  then have "\<not> list_ex (prefix ''diff --git '') ls" by (simp add: first_index_None)
  then show ?thesis
    using assms None by (simp add: with_diff_line_def rewrite_first_diff_absent)
next
  case (Some i)
  then have "list_ex (prefix ''diff --git '') ls"
    using first_index_None [of "prefix ''diff --git ''" ls] by auto
  then show ?thesis
    using assms Some by (simp add: with_diff_line_def rewrite_first_diff_update)
qed

lemma with_diff_line_find:
  assumes "ph \<noteq> []"
  shows "find (prefix ''diff --git '') (with_diff_line ph ls) = Some (diff_line_of ph)"
  using assms
  by (simp add: with_diff_line_def rewrite_first_diff_find diff_line_git)

lemma with_diff_line_set:
  "set (with_diff_line ph ls) \<subseteq> insert (diff_line_of ph) (set ls)"
proof (cases "ph = []")
  case True
  then show ?thesis by (auto simp: with_diff_line_empty)
next
  case False
  then show ?thesis
    using set_update_subset_insert [of ls _ "diff_line_of ph"]
    by (auto simp: with_diff_line_cases split: option.splits)
qed

lemma diff_line_nonempty: "ph \<noteq> [] \<Longrightarrow> diff_line_of ph \<noteq> []"
  by (simp add: diff_line_of_def)

lemma with_diff_line_ends:
  assumes "ls \<noteq> []" "hd ls \<noteq> []" "last ls \<noteq> []"
  shows "with_diff_line ph ls \<noteq> []" "hd (with_diff_line ph ls) \<noteq> []"
    "last (with_diff_line ph ls) \<noteq> []"
proof -
  have "with_diff_line ph ls \<noteq> [] \<and> hd (with_diff_line ph ls) \<noteq> []
      \<and> last (with_diff_line ph ls) \<noteq> []"
  proof (cases "ph = []")
    case True
    with assms show ?thesis by (simp add: with_diff_line_empty)
  next
    case False
    note dl = diff_line_nonempty [OF False]
    show ?thesis
    proof (cases "first_index (prefix ''diff --git '') ls")
      case None
      with False assms dl show ?thesis by (simp add: with_diff_line_cases)
    next
      case (Some i)
      then have i: "i < length ls" by (simp add: first_index_Some)
      have h: "hd (ls[i := diff_line_of ph]) \<noteq> []"
        using assms dl i by (cases ls; cases i) auto
      have l: "last (ls[i := diff_line_of ph]) \<noteq> []"
        using assms dl i by (simp add: last_conv_nth nth_list_update)
      from False Some assms h l show ?thesis by (simp add: with_diff_line_cases)
    qed
  qed
  then show "with_diff_line ph ls \<noteq> []" "hd (with_diff_line ph ls) \<noteq> []"
    "last (with_diff_line ph ls) \<noteq> []" by simp_all
qed

lemma with_diff_line_hunk:
  assumes "list_ex (prefix ''@@'') ls"
  shows "list_ex (prefix ''@@'') (with_diff_line ph ls)"
proof (cases "ph = []")
  case True
  with assms show ?thesis by (simp add: with_diff_line_empty)
next
  case False
  show ?thesis
  proof (cases "first_index (prefix ''diff --git '') ls")
    case None
    with False assms show ?thesis by (simp add: with_diff_line_cases)
  next
    case (Some i)
    then have i: "i < length ls" "prefix ''diff --git '' (ls ! i)"
      by (simp_all add: first_index_Some)
    from assms obtain j where j: "j < length ls" "prefix ''@@'' (ls ! j)"
      by (auto simp: list_ex_iff in_set_conv_nth)
    have "\<not> prefix ''@@'' (ls ! i)" using i(2) by (cases "ls ! i") auto
    with j have "j \<noteq> i" by auto
    with j have "prefix ''@@'' (ls[i := diff_line_of ph] ! j)" "j < length (ls[i := diff_line_of ph])"
      by simp_all
    then have "list_ex (prefix ''@@'') (ls[i := diff_line_of ph])"
      unfolding list_ex_iff using nth_mem by blast
    with False Some show ?thesis by (simp add: with_diff_line_cases)
  qed
qed

lemma prepared_lines_result:
  assumes res: "prepared_lines ph ls = Some out"
      and ls: "ls \<noteq> []" "hd ls \<noteq> []" "last ls \<noteq> []" "list_ex (prefix ''@@'') ls"
      and C: "\<forall>l \<in> set ls. C l" "C (diff_line_of ph)" "C (''--- a/'' @ ph)" "C (''+++ b/'' @ ph)"
        "\<And>l. C l \<Longrightarrow> C (rewrite_header_line ph l)"
  shows "prepared_lines ph out = Some out \<and> out \<noteq> [] \<and> hd out \<noteq> [] \<and> last out \<noteq> []
         \<and> list_ex (prefix ''@@'') out \<and> (\<forall>l \<in> set out. C l)"
proof -
  let ?R = "rewrite_header_line ph"
  let ?G = "prefix ''diff --git ''"
  let ?dl = "diff_line_of ph"
  let ?p2 = "with_diff_line ph ls"
  let ?p3 = "map ?R ?p2"
  note ends = with_diff_line_ends [OF ls(1,2,3), of ph]
  have p3_ne: "?p3 \<noteq> []" using ends(1) by simp
  have p3_hd: "hd ?p3 \<noteq> []" using ends(1,2) by (simp add: hd_map rhl_nonempty)
  have p3_last: "last ?p3 \<noteq> []" using ends(1,3) by (simp add: last_map rhl_nonempty)
  have p3_hunk: "list_ex (prefix ''@@'') ?p3"
    using with_diff_line_hunk [OF ls(4), of ph] by (simp add: list_ex_map_rhl)
  have p3_C: "\<forall>l \<in> set ?p3. C l"
    using with_diff_line_set [of ph ls] C(1,2,5) by auto
  have p3_find: "find ?G ?p3 = Some ?dl" if "ph \<noteq> []"
  proof -
    have "find ?G ?p3 = find ?G ?p2"
      by (rule find_map_stable) (simp_all add: rhl_git_iff rhl_git)
    with that show ?thesis by (simp add: with_diff_line_find)
  qed
  have p3_git: "list_ex ?G ?p3" if "ph \<noteq> []"
    using p3_find [OF that] by (metis find_None_iff list_ex_iff option.distinct(1))
  have p3_R: "map ?R ?p3 = ?p3" by (simp add: rhl_idem)
  show ?thesis
  proof (cases "list_ex (prefix ''--- '') ?p3")
    case True
    with res have new: "list_ex (prefix ''+++ '') ?p3"
      by (auto simp: prepared_lines_alt Let_def split: if_splits)
    from res True new have out: "out = ?p3"
      using p3_git by (auto simp: prepared_lines_alt Let_def split: if_splits)
    have "prepared_lines ph ?p3 = Some ?p3"
      using p3_find True new p3_R by (intro prepared_lines_fixed) simp_all
    with out p3_ne p3_hd p3_last p3_hunk p3_C show ?thesis by simp
  next
    case False
    with res have new: "\<not> list_ex (prefix ''+++ '') ?p3"
      by (auto simp: prepared_lines_alt Let_def split: if_splits)
    from res False new obtain p4 where syn: "synthesize_headers ph ?p3 = Some p4"
      by (auto simp: prepared_lines_alt Let_def split: option.splits)
    then have ph: "ph \<noteq> []" by (auto simp: synthesize_headers_def split: if_splits)
    from syn ph obtain i where i: "first_index (prefix ''@@'') ?p3 = Some i"
        and p4: "p4 = take i ?p3 @ [''--- a/'' @ ph, ''+++ b/'' @ ph] @ drop i ?p3"
      by (auto simp: synthesize_headers_def split: option.splits)
    from i have "i < length ?p3 \<and> prefix ''@@'' (?p3 ! i)"
      by (rule first_index_Some)
    then have il: "i < length ?p3" and ih: "prefix ''@@'' (?p3 ! i)"
      by blast+
    have "find ?G p4 = find ?G ?p3"
      unfolding p4 by (rule find_insert_between) simp_all
    then have p4_find: "find ?G p4 = Some ?dl"
      using p3_find [OF ph] by simp
    then have p4_git: "list_ex ?G p4"
      by (metis find_None_iff list_ex_iff option.distinct(1))
    from res False new syn p4_git have out: "out = p4"
      by (simp add: prepared_lines_alt Let_def)
    have d_ne: "drop i ?p3 \<noteq> []" using il by simp
    have p4_last: "last p4 \<noteq> []"
    proof -
      have "last p4 = last (drop i ?p3)" unfolding p4 using d_ne by simp
      also have "\<dots> = last ?p3" using il by simp
      finally show ?thesis using p3_last by simp
    qed
    have p4_hd: "hd p4 \<noteq> []"
    proof (cases i)
      case 0
      then show ?thesis unfolding p4 by simp
    next
      case (Suc k)
      then have "take i ?p3 \<noteq> []" using p3_ne by simp
      then have "hd p4 = hd (take i ?p3)" unfolding p4 by simp
      also have "\<dots> = hd ?p3" using Suc by simp
      finally show ?thesis using p3_hd by simp
    qed
    have p4_hunk: "list_ex (prefix ''@@'') p4"
    proof -
      have "?p3 ! i \<in> set (drop i ?p3)"
        using il by (metis Cons_nth_drop_Suc list.set_intros(1))
      with ih show ?thesis unfolding p4 list_ex_iff by auto
    qed
    have p4_C: "\<forall>l \<in> set p4. C l"
    proof
      fix l assume "l \<in> set p4"
      then have "l \<in> set (take i ?p3) \<or> l = ''--- a/'' @ ph \<or> l = ''+++ b/'' @ ph
          \<or> l \<in> set (drop i ?p3)"
        unfolding p4 by auto
      then show "C l"
        using p3_C C(3,4) in_set_takeD in_set_dropD by fast
    qed
    have p4_R: "map ?R p4 = p4"
      unfolding p4 using p3_R
      by (simp only: map_append take_map [symmetric] drop_map [symmetric] list.map rhl_headers)
    have "prepared_lines ph p4 = Some p4"
    proof (rule prepared_lines_fixed)
      show "find ?G p4 = Some ?dl" by (rule p4_find)
      show "list_ex (prefix ''--- '') p4" unfolding p4 by simp
      show "list_ex (prefix ''+++ '') p4" unfolding p4 by simp
      show "map ?R p4 = p4" by (rule p4_R)
    qed
    with out p4_hd p4_last p4_hunk p4_C show ?thesis unfolding p4 by auto
  qed
qed

lemma strip_dot_slash_subset: "set (strip_dot_slash s) \<subseteq> set s"
  by (induction s rule: strip_dot_slash.induct) auto

lemma py_strip_subset: "set (py_strip s) \<subseteq> set s"
proof -
  have "set (rev (dropWhile py_isspace (rev (dropWhile py_isspace s))))
      \<subseteq> set (dropWhile py_isspace s)"
    using set_dropWhileD by fastforce
  also have "\<dots> \<subseteq> set s" using set_dropWhileD by fastforce
  finally show ?thesis by (simp add: py_strip_def py_rstrip_def py_lstrip_def)
qed

lemma sanitize_path_chars: "set (sanitize_path f) \<subseteq> insert CHR ''/'' (set f)"
proof -
  have "set (sanitize_path f) \<subseteq> set (py_replace [CHR 0x5C] ''/'' (py_strip f))"
    unfolding sanitize_path_def by (rule strip_dot_slash_subset)
  also have "\<dots> \<subseteq> set (py_strip f) \<union> set ''/''" by (rule py_replace_chars)
  also have "\<dots> \<subseteq> insert CHR ''/'' (set f)" using py_strip_subset [of f] by auto
  finally show ?thesis .
qed

lemma join_with_chars:
  "set (join_with sep ls) \<subseteq> set sep \<union> \<Union> (set ` set ls)"
  by (induction sep ls rule: join_with.induct) auto

lemma join_with_hd:
  "ls \<noteq> [] \<Longrightarrow> hd ls \<noteq> [] \<Longrightarrow> hd (join_with sep ls) = hd (hd ls) \<and> join_with sep ls \<noteq> []"
  by (induction sep ls rule: join_with.induct) auto

lemma lstrip_chars_id: "s \<noteq> [] \<Longrightarrow> hd s \<notin> set cs \<Longrightarrow> lstrip_chars cs s = s"
  by (cases s) (simp_all add: lstrip_chars_def)

lemma rstrip_chars_snoc: "c \<in> set cs \<Longrightarrow> rstrip_chars cs (s @ [c]) = rstrip_chars cs s"
  by (simp add: rstrip_chars_def)

text \<open>
  Claim C10, as amended. For a target path that holds no carriage return and no line
  feed, normalisation is idempotent: when normalising a patch for the path gives a
  result, normalising that result for the same path gives it back unchanged.
\<close>

theorem normalisation_idempotent:
  assumes cr: "CHR 0x0D \<notin> set f" and lf: "CHR ''\<newline>'' \<notin> set f"
      and res: "postprocess_prepare_patch_for_application p (Some f) = Some q"
  shows "postprocess_prepare_patch_for_application q (Some f) = Some q"
proof -
  let ?ph = "path_hint_of (Some f)"
  let ?ls = "patch_lines p"
  let ?nl = "''\<newline>''"
  have ph: "clean_line ?ph"
    using sanitize_path_chars [of f] cr lf
    by (auto simp: clean_line_def path_hint_of_def)
  from res have ne: "normalized_text p \<noteq> []" and hunk: "list_ex (prefix ''@@'') ?ls"
    by (auto simp: prepare_eq split: if_splits)
  with res obtain out where out: "prepared_lines ?ph ?ls = Some out"
      and q: "q = rstrip_chars ?nl (join_with ?nl out) @ ?nl"
    by (auto simp: prepare_eq)
  have ls_ne: "?ls \<noteq> []" by (simp add: patch_lines_def split_on_nonempty)
  have ls_clean: "\<forall>l \<in> set ?ls. clean_line l"
    using patch_lines_clean by (simp add: clean_line_def)
  have facts: "prepared_lines ?ph out = Some out \<and> out \<noteq> [] \<and> hd out \<noteq> [] \<and> last out \<noteq> []
         \<and> list_ex (prefix ''@@'') out \<and> (\<forall>l \<in> set out. clean_line l)"
  proof (rule prepared_lines_result [OF out ls_ne hd_patch_lines [OF ne] patch_lines_last [OF ne]
        hunk ls_clean])
    show "clean_line (diff_line_of ?ph)"
      using ph by (auto simp: clean_line_def diff_line_of_def)
    show "clean_line (''--- a/'' @ ?ph)" using ph by (auto simp: clean_line_def)
    show "clean_line (''+++ b/'' @ ?ph)" using ph by (auto simp: clean_line_def)
    show "clean_line l \<Longrightarrow> clean_line (rewrite_header_line ?ph l)" for l
      using ph by (auto simp: clean_line_def rewrite_header_line_def)
  qed
  then have fixd: "prepared_lines ?ph out = Some out" and o_ne: "out \<noteq> []"
      and o_hd: "hd out \<noteq> []" and o_last: "last out \<noteq> []"
      and o_hunk: "list_ex (prefix ''@@'') out" and o_clean: "\<forall>l \<in> set out. clean_line l"
    by blast+
  let ?j = "join_with ?nl out"
  have "last out \<in> set out" using o_ne by simp
  then have "clean_line (last out)" using o_clean by blast
  then have "last (last out) \<noteq> CHR ''\<newline>''"
    using o_last last_in_set unfolding clean_line_def by metis
  then have fin: "rstrip_chars ?nl ?j = ?j"
    using o_ne o_last by (intro finish_id)
  with q have q': "q = ?j @ ?nl" by simp
  have j_ne: "?j \<noteq> []" and j_hd: "hd ?j = hd (hd out)"
    using join_with_hd [OF o_ne o_hd, of ?nl] by simp_all
  have "hd out \<in> set out" using o_ne by simp
  then have "clean_line (hd out)" using o_clean by blast
  then have "hd (hd out) \<noteq> CHR ''\<newline>''"
    using o_hd hd_in_set unfolding clean_line_def by metis
  with j_hd have j_hd': "hd ?j \<notin> set ?nl" by simp
  have q_cr: "CHR 0x0D \<notin> set q"
  proof -
    have "set ?j \<subseteq> set ?nl \<union> \<Union> (set ` set out)" by (rule join_with_chars)
    moreover have "CHR 0x0D \<notin> \<Union> (set ` set out)"
      using o_clean by (auto simp: clean_line_def)
    ultimately show ?thesis unfolding q' by auto
  qed
  have "normalized_text q = strip_chars ?nl q"
    unfolding normalized_text_def using q_cr by (simp add: py_replace_absent)
  also have "\<dots> = rstrip_chars ?nl (?j @ ?nl)"
  proof -
    have "hd (?j @ ?nl) \<notin> set ?nl" using j_ne j_hd' by simp
    then have "lstrip_chars ?nl (?j @ ?nl) = ?j @ ?nl"
      by (intro lstrip_chars_id) simp_all
    then show ?thesis by (simp add: strip_chars_def q')
  qed
  also have "\<dots> = rstrip_chars ?nl ?j"
    using rstrip_chars_snoc [of "CHR ''\<newline>''" ?nl ?j] by simp
  finally have norm: "normalized_text q = ?j" using fin by simp
  have "\<forall>l \<in> set out. CHR ''\<newline>'' \<notin> set l"
    using o_clean by (simp add: clean_line_def)
  then have lines: "patch_lines q = out"
    unfolding patch_lines_def norm using o_ne by (intro split_on_join)
  have "postprocess_prepare_patch_for_application q (Some f)
      = Some (rstrip_chars ?nl ?j @ ?nl)"
    using j_ne o_hunk fixd by (simp add: prepare_eq norm lines)
  with q show ?thesis by simp
qed

text \<open>
  Claim C10 as stated fails for a path with a line break in it (the \<open>File\<close> field of a
  finding may run over several lines): the headers written for the path \<open>a\nb\<close> are
  split into lines by the second pass, which then rewrites the first of them again.
\<close>

theorem newline_in_path_breaks_idempotence:
  "postprocess_prepare_patch_for_application ''@@'' (Some ''a\<newline>b'')
     = Some ''diff --git a/a\<newline>b b/a\<newline>b\<newline>--- a/a\<newline>b\<newline>+++ b/a\<newline>b\<newline>@@\<newline>''
   \<and> postprocess_prepare_patch_for_application
         ''diff --git a/a\<newline>b b/a\<newline>b\<newline>--- a/a\<newline>b\<newline>+++ b/a\<newline>b\<newline>@@\<newline>'' (Some ''a\<newline>b'')
     \<noteq> Some ''diff --git a/a\<newline>b b/a\<newline>b\<newline>--- a/a\<newline>b\<newline>+++ b/a\<newline>b\<newline>@@\<newline>''"
  by code_simp

text \<open>
  The witness: the hunk-only diff normalised for \<open>src/x.go\<close>, and normalised again.
\<close>

theorem normalisation_idempotent_witness:
  "postprocess_prepare_patch_for_application ''@@ -1,1 +1,1 @@\<newline>-a\<newline>+b\<newline>'' (Some ''src/x.go'')
     = Some ''diff --git a/src/x.go b/src/x.go\<newline>--- a/src/x.go\<newline>+++ b/src/x.go\<newline>@@ -1,1 +1,1 @@\<newline>-a\<newline>+b\<newline>''
   \<and> postprocess_prepare_patch_for_application
         ''diff --git a/src/x.go b/src/x.go\<newline>--- a/src/x.go\<newline>+++ b/src/x.go\<newline>@@ -1,1 +1,1 @@\<newline>-a\<newline>+b\<newline>''
         (Some ''src/x.go'')
     = Some ''diff --git a/src/x.go b/src/x.go\<newline>--- a/src/x.go\<newline>+++ b/src/x.go\<newline>@@ -1,1 +1,1 @@\<newline>-a\<newline>+b\<newline>''"
proof -
  have r: "postprocess_prepare_patch_for_application ''@@ -1,1 +1,1 @@\<newline>-a\<newline>+b\<newline>''
      (Some ''src/x.go'')
     = Some ''diff --git a/src/x.go b/src/x.go\<newline>--- a/src/x.go\<newline>+++ b/src/x.go\<newline>@@ -1,1 +1,1 @@\<newline>-a\<newline>+b\<newline>''"
    by code_simp
  have c: "CHR 0x0D \<notin> set ''src/x.go''" "CHR ''\<newline>'' \<notin> set ''src/x.go''" by simp_all
  from normalisation_idempotent [OF c r] r show ?thesis by simp
qed


end
